theory Spec2Isabelle
  imports Main
begin

section \<open>The relational store\<close>

text \<open>
  The program keeps all of its state in three MySQL tables created by \<open>init_db\<close>:
  \<open>students\<close>, \<open>books\<close> and \<open>issued_books\<close>. A table is the list of its rows in
  primary-key order (the order an unordered \<open>SELECT\<close> of an InnoDB table returns), and a
  nullable column is an \<open>option\<close>. The \<open>AUTO_INCREMENT\<close> counters are part of the
  state. The column \<open>status VARCHAR(20) DEFAULT 'Available'\<close> only ever receives the two
  literals the program writes, \<open>'Available'\<close> and \<open>'Issued'\<close>, and is the datatype
  \<open>book_status\<close>. A \<open>DATE\<close> is a year, a month and a day.
\<close>

record date =
  d_year :: nat
  d_month :: nat
  d_day :: nat

record student =
  student_id :: int
  name :: string
  age :: "int option"
  course :: "string option"
  year :: "int option"

datatype book_status = Available | Issued

record book =
  book_id :: int
  title :: string
  author :: "string option"
  pub_year :: "int option"
  status :: book_status

record issued_book =
  issue_id :: int
  ib_student_id :: "int option"
  ib_book_id :: "int option"
  issue_date :: "date option"
  return_date :: "date option"

record db =
  students :: "student list"
  books :: "book list"
  issued_books :: "issued_book list"
  next_student_id :: int
  next_book_id :: int
  next_issue_id :: int

text \<open>\<open>init_db\<close> on a server without the database: three empty tables, counters at 1.\<close>

definition init_db :: db where
  "init_db = \<lparr>students = [], books = [], issued_books = [],
     next_student_id = 1, next_book_id = 1, next_issue_id = 1\<rparr>"

text \<open>
  What the server refuses, under MySQL's default strict SQL mode: a value outside the
  range of \<open>INT\<close>, a string longer than its \<open>VARCHAR\<close>, a foreign key that names no
  row, an exhausted \<open>AUTO_INCREMENT\<close> counter. The columns take every string of this
  model (the character set \<open>utf8mb4\<close>). The program catches every such exception and
  shows it in a message box. \<open>OperationalError\<close> is the exception of a statement
  that does not reach the server or that the server aborts; the statements below are
  the statements that reach it, and the handlers say where it may strike.
\<close>

datatype store_error = DataError | IntegrityError | OperationalError

definition int_fits :: "int \<Rightarrow> bool" where
  "int_fits n = (- 2147483648 \<le> n \<and> n \<le> 2147483647)"

definition opt_int_fits :: "int option \<Rightarrow> bool" where
  "opt_int_fits v = (case v of None \<Rightarrow> True | Some n \<Rightarrow> int_fits n)"

definition varchar_fits :: "nat \<Rightarrow> string \<Rightarrow> bool" where
  "varchar_fits w s = (length s \<le> w)"

definition fk_ok :: "int list \<Rightarrow> int option \<Rightarrow> bool" where
  "fk_ok keys v = (case v of None \<Rightarrow> True | Some k \<Rightarrow> k \<in> set keys)"

subsection \<open>The statements on \<open>students\<close>\<close>

text \<open>\<open>INSERT INTO students (name, age, course, year) VALUES (%s,%s,%s,%s)\<close>\<close>

definition insert_student ::
  "string \<Rightarrow> int option \<Rightarrow> string \<Rightarrow> int option \<Rightarrow> db \<Rightarrow> store_error + db" where
  "insert_student nm ag co yr d =
     (if \<not> (varchar_fits 100 nm \<and> opt_int_fits ag \<and> varchar_fits 100 co \<and> opt_int_fits yr)
      then Inl DataError
      else if \<not> int_fits (next_student_id d) then Inl IntegrityError
      else Inr (d\<lparr>students := students d @
                    [\<lparr>student_id = next_student_id d, name = nm, age = ag,
                      course = Some co, year = yr\<rparr>],
                  next_student_id := next_student_id d + 1\<rparr>))"

text \<open>\<open>UPDATE students SET name=%s, age=%s, course=%s, year=%s WHERE student_id=%s\<close>.
  A value is only checked when it is stored into a row the \<open>WHERE\<close> clause selects.\<close>

definition update_student_row ::
  "string \<Rightarrow> int option \<Rightarrow> string \<Rightarrow> int option \<Rightarrow> int \<Rightarrow> db \<Rightarrow> store_error + db" where
  "update_student_row nm ag co yr sid d =
     (if (\<exists>s \<in> set (students d). student_id s = sid) \<and>
         \<not> (varchar_fits 100 nm \<and> opt_int_fits ag \<and> varchar_fits 100 co \<and> opt_int_fits yr)
      then Inl DataError
      else Inr (d\<lparr>students :=
                    map (\<lambda>s. if student_id s = sid
                              then s\<lparr>name := nm, age := ag, course := Some co, year := yr\<rparr>
                              else s) (students d)\<rparr>))"

text \<open>\<open>DELETE FROM students WHERE student_id=%s\<close>, with the
  \<open>ON DELETE CASCADE\<close> of \<open>issued_books.student_id\<close>.\<close>

definition delete_student_row :: "int \<Rightarrow> db \<Rightarrow> db" where
  "delete_student_row sid d =
     d\<lparr>students := filter (\<lambda>s. student_id s \<noteq> sid) (students d),
       issued_books := filter (\<lambda>r. ib_student_id r \<noteq> Some sid) (issued_books d)\<rparr>"

subsection \<open>The statements on \<open>books\<close>\<close>

text \<open>\<open>INSERT INTO books (title, author, pub_year) VALUES (%s,%s,%s)\<close>; the status
  column takes its default.\<close>

definition insert_book :: "string \<Rightarrow> string \<Rightarrow> int option \<Rightarrow> db \<Rightarrow> store_error + db" where
  "insert_book ti au py d =
     (if \<not> (varchar_fits 255 ti \<and> varchar_fits 150 au \<and> opt_int_fits py)
      then Inl DataError
      else if \<not> int_fits (next_book_id d) then Inl IntegrityError
      else Inr (d\<lparr>books := books d @
                    [\<lparr>book_id = next_book_id d, title = ti, author = Some au,
                      pub_year = py, status = Available\<rparr>],
                  next_book_id := next_book_id d + 1\<rparr>))"

text \<open>\<open>UPDATE books SET title=%s, author=%s, pub_year=%s WHERE book_id=%s\<close>\<close>

definition update_book_row ::
  "string \<Rightarrow> string \<Rightarrow> int option \<Rightarrow> int \<Rightarrow> db \<Rightarrow> store_error + db" where
  "update_book_row ti au py bid d =
     (if (\<exists>b \<in> set (books d). book_id b = bid) \<and>
         \<not> (varchar_fits 255 ti \<and> varchar_fits 150 au \<and> opt_int_fits py)
      then Inl DataError
      else Inr (d\<lparr>books :=
                    map (\<lambda>b. if book_id b = bid
                              then b\<lparr>title := ti, author := Some au, pub_year := py\<rparr>
                              else b) (books d)\<rparr>))"

text \<open>\<open>DELETE FROM books WHERE book_id=%s\<close>, with the cascade of
  \<open>issued_books.book_id\<close>.\<close>

definition delete_book_row :: "int \<Rightarrow> db \<Rightarrow> db" where
  "delete_book_row bid d =
     d\<lparr>books := filter (\<lambda>b. book_id b \<noteq> bid) (books d),
       issued_books := filter (\<lambda>r. ib_book_id r \<noteq> Some bid) (issued_books d)\<rparr>"

text \<open>\<open>UPDATE books SET status=... WHERE book_id=%s\<close>. The parameter is \<open>None\<close> when
  Python passes \<open>None\<close>: \<open>book_id = NULL\<close> selects no row.\<close>

definition update_book_status :: "book_status \<Rightarrow> int option \<Rightarrow> db \<Rightarrow> db" where
  "update_book_status st bid d =
     d\<lparr>books := map (\<lambda>b. if Some (book_id b) = bid then b\<lparr>status := st\<rparr> else b) (books d)\<rparr>"

subsection \<open>The statements on \<open>issued_books\<close>\<close>

text \<open>\<open>INSERT INTO issued_books (student_id, book_id, issue_date) VALUES (%s,%s,%s)\<close>.
  Both foreign keys are nullable; a key that is not null must name a row.\<close>

definition insert_issued :: "int option \<Rightarrow> int option \<Rightarrow> date \<Rightarrow> db \<Rightarrow> store_error + db" where
  "insert_issued sid bid today d =
     (if \<not> (fk_ok (map student_id (students d)) sid \<and> fk_ok (map book_id (books d)) bid)
      then Inl IntegrityError
      else if \<not> int_fits (next_issue_id d) then Inl IntegrityError
      else Inr (d\<lparr>issued_books := issued_books d @
                    [\<lparr>issue_id = next_issue_id d, ib_student_id = sid, ib_book_id = bid,
                      issue_date = Some today, return_date = None\<rparr>],
                  next_issue_id := next_issue_id d + 1\<rparr>))"

text \<open>\<open>UPDATE issued_books SET return_date=%s WHERE issue_id=%s\<close>\<close>

definition update_return_date :: "date \<Rightarrow> int \<Rightarrow> db \<Rightarrow> db" where
  "update_return_date today iid d =
     d\<lparr>issued_books :=
         map (\<lambda>r. if issue_id r = iid then r\<lparr>return_date := Some today\<rparr> else r)
           (issued_books d)\<rparr>"

section \<open>Text: what Python and the form fields do with strings\<close>

text \<open>
  A string of Python is a sequence of code points. A character of this model is a code
  point below 256, so a string of the model is a string of Python over ASCII and Latin-1
  and nothing is said of strings with other code points. \<open>str.strip\<close> removes
  the white space of both ends; below 256 the white space of Python is tab, line feed,
  vertical tab, form feed, carriage return, the four separators \<open>0x1C\<close> to
  \<open>0x1F\<close>, the space, the next-line control \<open>0x85\<close> and the no-break space
  \<open>0xA0\<close>.
\<close>

definition is_space :: "char \<Rightarrow> bool" where
  "is_space c =
     ((of_char c :: nat) \<in> set [9, 10, 11, 12, 13, 28, 29, 30, 31, 32, 133, 160])"

definition strip :: "string \<Rightarrow> string" where
  "strip s = rev (dropWhile is_space (rev (dropWhile is_space s)))"

text \<open>\<open>str(n)\<close> of an integer: its decimal digits, after a minus sign when negative.\<close>

definition digit_char :: "nat \<Rightarrow> char" where
  "digit_char n = char_of (48 + n)"

function str_nat :: "nat \<Rightarrow> string" where
  "str_nat n = (if n < 10 then [digit_char n] else str_nat (n div 10) @ [digit_char (n mod 10)])"
  by pat_completeness auto
termination
  by (relation "measure id") auto

declare str_nat.simps [simp del]

definition str_int :: "int \<Rightarrow> string" where
  "str_int i = (if i < 0 then CHR ''-'' # str_nat (nat (- i)) else str_nat (nat i))"

text \<open>\<open>date.isoformat()\<close>: \<open>YYYY-MM-DD\<close>, each field padded with zeros to its width.\<close>

definition zfill :: "nat \<Rightarrow> string \<Rightarrow> string" where
  "zfill w s = replicate (w - length s) (CHR ''0'') @ s"

definition isoformat :: "date \<Rightarrow> string" where
  "isoformat dt = zfill 4 (str_nat (d_year dt)) @ ''-'' @ zfill 2 (str_nat (d_month dt))
                  @ ''-'' @ zfill 2 (str_nat (d_day dt))"

text \<open>
  \<open>int(s)\<close> of a string, base 10. The white space \<open>int\<close> skips at both ends is
  not that of \<open>str.strip\<close>: it is tab, line feed, vertical tab, form feed, carriage
  return and space, and of the code points above ASCII the white space, here
  \<open>0x85\<close> and \<open>0xA0\<close>; the separators \<open>0x1C\<close> to \<open>0x1F\<close> are not
  skipped. Then comes one optional sign, then decimal digits, where a single underscore
  may stand between two digits. A string with more digits than the limit of the
  interpreter (4300 unless configured otherwise) is refused. Anything refused raises
  \<open>ValueError\<close>, here \<open>None\<close>. Below 256 the decimal digits are the ASCII digits.
\<close>

definition int_space :: "char \<Rightarrow> bool" where
  "int_space c = ((of_char c :: nat) \<in> set [9, 10, 11, 12, 13, 32, 133, 160])"

definition int_strip :: "string \<Rightarrow> string" where
  "int_strip s = rev (dropWhile int_space (rev (dropWhile int_space s)))"

definition max_str_digits :: nat where
  "max_str_digits = 4300"

definition is_digit :: "char \<Rightarrow> bool" where
  "is_digit c = (48 \<le> (of_char c :: nat) \<and> (of_char c :: nat) \<le> 57)"

definition digit_val :: "char \<Rightarrow> int" where
  "digit_val c = int (of_char c) - 48"

fun parse_digits :: "int \<Rightarrow> string \<Rightarrow> int option" where
  "parse_digits acc [] = Some acc"
| "parse_digits acc (c # cs) =
     (if is_digit c then parse_digits (10 * acc + digit_val c) cs
      else if c = CHR ''_'' then
        (case cs of
           [] \<Rightarrow> None
         | e # es \<Rightarrow> if is_digit e then parse_digits (10 * acc + digit_val e) es else None)
      else None)"

definition parse_unsigned :: "string \<Rightarrow> int option" where
  "parse_unsigned s =
     (case s of [] \<Rightarrow> None
      | c # cs \<Rightarrow> if is_digit c then parse_digits (digit_val c) cs else None)"

text \<open>What is left of a literal without its sign.\<close>

definition unsigned :: "string \<Rightarrow> string" where
  "unsigned t =
     (case t of [] \<Rightarrow> []
      | c # cs \<Rightarrow> if c = CHR ''-'' \<or> c = CHR ''+'' then cs else c # cs)"

definition py_int :: "string \<Rightarrow> int option" where
  "py_int s =
     (let t = int_strip s; body = unsigned t in
      if max_str_digits < length (filter is_digit body) then None
      else case t of
             [] \<Rightarrow> None
           | c # cs \<Rightarrow>
               if c = CHR ''-'' then map_option uminus (parse_unsigned body)
               else parse_unsigned body)"

text \<open>\<open>_int_or_none\<close> (the same static method on both pages): \<open>int(s)\<close>, and
  \<open>None\<close> on any exception.\<close>

definition int_or_none :: "string \<Rightarrow> int option" where
  "int_or_none s = py_int s"

section \<open>What a handler shows\<close>

text \<open>
  A handler ends with at most one message box: \<open>messagebox.showerror(t, m)\<close>,
  \<open>messagebox.showinfo(t, m)\<close>, or \<open>showerror("DB Error", str(e))\<close> for an exception
  of the store; \<open>NoNotice\<close> is a silent return.
\<close>

datatype notice =
    ShowError string string
  | ShowInfo string string
  | DBError store_error
  | NoNotice

section \<open>The issue and return page\<close>

text \<open>
  \<open>IssuePage\<close> holds the text of its two read-only pickers, the two dictionaries
  \<open>_student_map\<close> and \<open>_book_map\<close> from a picker line to a key, and the rows of its
  table. A dictionary is the list of its items in insertion order; a later item for the
  same key replaces the value of an earlier one.
\<close>

record issued_row =
  r_issue_id :: int
  r_student_id :: int
  r_student_name :: string
  r_book_id :: int
  r_title :: string
  r_issue_date :: string
  r_return_date :: string

definition dict_get :: "(string \<times> int) list \<Rightarrow> string \<Rightarrow> int option" where
  "dict_get m k = map_of (rev m) k"

record issue_page =
  student_cb :: string
  book_cb :: string
  student_map :: "(string \<times> int) list"
  book_map :: "(string \<times> int) list"
  tree :: "issued_row list"

text \<open>The line of a picker: \<open>f"{r[0]} - {r[1]}"\<close>.\<close>

definition picker_line :: "int \<Rightarrow> string \<Rightarrow> string" where
  "picker_line k s = str_int k @ '' - '' @ s"

text \<open>\<open>SELECT book_id, title FROM books WHERE status='Available'\<close>\<close>

definition available_books :: "db \<Rightarrow> book list" where
  "available_books d = filter (\<lambda>b. status b = Available) (books d)"

definition refresh_comboboxes :: "db \<Rightarrow> issue_page \<Rightarrow> issue_page" where
  "refresh_comboboxes d p =
     p\<lparr>student_map := map (\<lambda>s. (picker_line (student_id s) (name s), student_id s)) (students d),
       book_map := map (\<lambda>b. (picker_line (book_id b) (title b), book_id b)) (available_books d)\<rparr>"

text \<open>
  The query of \<open>fetch_issued\<close>: the inner join of \<open>issued_books\<close> with \<open>students\<close>
  and \<open>books\<close> on the two foreign keys (a null key joins with nothing),
  \<open>ORDER BY ib.issue_id DESC\<close>.
\<close>

definition select_issued :: "db \<Rightarrow> (issued_book \<times> student \<times> book) list" where
  "select_issued d =
     sort_key (\<lambda>(r, s, b). - issue_id r)
       [(r, s, b). r \<leftarrow> issued_books d,
                   s \<leftarrow> students d, ib_student_id r = Some (student_id s),
                   b \<leftarrow> books d, ib_book_id r = Some (book_id b)]"

text \<open>\<open>r[5].isoformat() if r[5] else ""\<close>\<close>

definition date_cell :: "date option \<Rightarrow> string" where
  "date_cell v = (case v of None \<Rightarrow> [] | Some dt \<Rightarrow> isoformat dt)"

definition issued_cells :: "issued_book \<times> student \<times> book \<Rightarrow> issued_row" where
  "issued_cells t =
     (case t of (r, s, b) \<Rightarrow>
        \<lparr>r_issue_id = issue_id r, r_student_id = student_id s, r_student_name = name s,
         r_book_id = book_id b, r_title = title b,
         r_issue_date = date_cell (issue_date r), r_return_date = date_cell (return_date r)\<rparr>)"

definition fetch_issued :: "db \<Rightarrow> issue_page \<Rightarrow> issue_page" where
  "fetch_issued d p = p\<lparr>tree := map issued_cells (select_issued d)\<rparr>"

definition refresh_all :: "db \<Rightarrow> issue_page \<Rightarrow> issue_page" where
  "refresh_all d p = fetch_issued d (refresh_comboboxes d p)"

text \<open>
  \<open>issue_book\<close>, with today's date as an argument. The keys come out of the two
  dictionaries with \<open>dict.get\<close>, so a picker text that is no key gives \<open>None\<close>, which
  the statements receive as \<open>NULL\<close>.
\<close>

definition issue_book :: "date \<Rightarrow> issue_page \<Rightarrow> db \<Rightarrow> notice \<times> db \<times> issue_page" where
  "issue_book today p d =
     (let ssel = student_cb p; bsel = book_cb p in
      if ssel = [] \<or> bsel = [] then (ShowError ''Input'' ''Select student and book to issue'', d, p)
      else
        let sid = dict_get (student_map p) ssel;
            bid = dict_get (book_map p) bsel
        in case insert_issued sid bid today d of
             Inl e \<Rightarrow> (DBError e, d, p)
           | Inr d1 \<Rightarrow>
               let d2 = update_book_status Issued bid d1
               in (ShowInfo ''Success'' ''Book issued.'', d2, refresh_all d2 p))"

text \<open>
  \<open>return_book\<close>. \<open>sel\<close> is the row of the table that has the focus, \<open>None\<close> when no
  row has it; \<open>confirm\<close> is the answer to \<open>askyesno\<close>. The test on the cell of the
  return date is the one of the source: \<open>vals[6] not in (None, "", "None")\<close>.
\<close>

definition return_book ::
  "issued_row option \<Rightarrow> bool \<Rightarrow> date \<Rightarrow> issue_page \<Rightarrow> db \<Rightarrow> notice \<times> db \<times> issue_page" where
  "return_book sel confirm today p d =
     (case sel of
        None \<Rightarrow> (ShowError ''Selection'' ''Select an issued record to return'', d, p)
      | Some vals \<Rightarrow>
          if r_return_date vals \<noteq> [] \<and> r_return_date vals \<noteq> ''None''
          then (ShowInfo ''Info'' ''This book is already returned.'', d, p)
          else if \<not> confirm then (NoNotice, d, p)
          else
            let d1 = update_return_date today (r_issue_id vals) d;
                d2 = update_book_status Available (Some (r_book_id vals)) d1
            in (ShowInfo ''Success'' ''Book returned.'', d2, refresh_all d2 p))"

section \<open>The student page and the book page\<close>

text \<open>
  The handlers of \<open>StudentPage\<close> and \<open>BookPage\<close> read the text of their form fields
  (here arguments, in the order of the form) and the key in the first cell of the
  focused row of their table (\<open>sel\<close>, \<open>None\<close> when no row has the focus). They return
  what they show and the new store.
\<close>

definition add_student :: "string \<Rightarrow> string \<Rightarrow> string \<Rightarrow> string \<Rightarrow> db \<Rightarrow> notice \<times> db" where
  "add_student name_var age_var course_var year_var d =
     (let nm = strip name_var in
      if nm = [] then (ShowError ''Input error'' ''Name is required'', d)
      else case insert_student nm (int_or_none age_var) (strip course_var)
                  (int_or_none year_var) d of
             Inl e \<Rightarrow> (DBError e, d)
           | Inr d1 \<Rightarrow> (ShowInfo ''Success'' ''Student added.'', d1))"

definition update_student ::
  "int option \<Rightarrow> string \<Rightarrow> string \<Rightarrow> string \<Rightarrow> string \<Rightarrow> db \<Rightarrow> notice \<times> db" where
  "update_student sel name_var age_var course_var year_var d =
     (case sel of
        None \<Rightarrow> (ShowError ''Selection'' ''Select a student first'', d)
      | Some sid \<Rightarrow>
          let nm = strip name_var in
          if nm = [] then (ShowError ''Input error'' ''Name is required'', d)
          else case update_student_row nm (int_or_none age_var) (strip course_var)
                      (int_or_none year_var) sid d of
                 Inl e \<Rightarrow> (DBError e, d)
               | Inr d1 \<Rightarrow> (ShowInfo ''Success'' ''Student updated.'', d1))"

definition delete_student :: "int option \<Rightarrow> bool \<Rightarrow> db \<Rightarrow> notice \<times> db" where
  "delete_student sel confirm d =
     (case sel of
        None \<Rightarrow> (ShowError ''Selection'' ''Select a student first'', d)
      | Some sid \<Rightarrow>
          if \<not> confirm then (NoNotice, d)
          else (ShowInfo ''Success'' ''Student deleted.'', delete_student_row sid d))"

definition add_book :: "string \<Rightarrow> string \<Rightarrow> string \<Rightarrow> db \<Rightarrow> notice \<times> db" where
  "add_book title_var author_var pubyear_var d =
     (let ti = strip title_var in
      if ti = [] then (ShowError ''Input error'' ''Title required'', d)
      else case insert_book ti (strip author_var) (int_or_none pubyear_var) d of
             Inl e \<Rightarrow> (DBError e, d)
           | Inr d1 \<Rightarrow> (ShowInfo ''Success'' ''Book added.'', d1))"

definition update_book ::
  "int option \<Rightarrow> string \<Rightarrow> string \<Rightarrow> string \<Rightarrow> db \<Rightarrow> notice \<times> db" where
  "update_book sel title_var author_var pubyear_var d =
     (case sel of
        None \<Rightarrow> (ShowError ''Selection'' ''Select a book first'', d)
      | Some bid \<Rightarrow>
          let ti = strip title_var in
          if ti = [] then (ShowError ''Input error'' ''Title required'', d)
          else case update_book_row ti (strip author_var) (int_or_none pubyear_var) bid d of
                 Inl e \<Rightarrow> (DBError e, d)
               | Inr d1 \<Rightarrow> (ShowInfo ''Success'' ''Book updated.'', d1))"

definition delete_book :: "int option \<Rightarrow> bool \<Rightarrow> db \<Rightarrow> notice \<times> db" where
  "delete_book sel confirm d =
     (case sel of
        None \<Rightarrow> (ShowError ''Selection'' ''Select a book first'', d)
      | Some bid \<Rightarrow>
          if \<not> confirm then (NoNotice, d)
          else (ShowInfo ''Success'' ''Book deleted.'', delete_book_row bid d))"

section \<open>A worked scenario\<close>

text \<open>
  The scenario of the specification, run through the handlers: the student Asha Rao and
  the book Compilers are added to the empty store, the issue page is shown with both
  picked, and the book is issued on 2024-03-07.
\<close>

definition demo_today :: date where
  "demo_today = \<lparr>d_year = 2024, d_month = 3, d_day = 7\<rparr>"

definition demo_db :: db where
  "demo_db = snd (add_book ''Compilers'' ''Aho'' ''2006''
                (snd (add_student ''Asha Rao'' ''20'' ''CS'' ''2'' init_db)))"

definition demo_page :: issue_page where
  "demo_page = refresh_all demo_db
     \<lparr>student_cb = ''1 - Asha Rao'', book_cb = ''1 - Compilers'',
      student_map = [], book_map = [], tree = []\<rparr>"

definition demo_db_issued :: db where
  "demo_db_issued = fst (snd (issue_book demo_today demo_page demo_db))"

definition demo_page_issued :: issue_page where
  "demo_page_issued = snd (snd (issue_book demo_today demo_page demo_db))"

section \<open>Notions of the specification\<close>

text \<open>
  A form field is blank when nothing but white space is in it.
\<close>

definition blank :: "string \<Rightarrow> bool" where
  "blank s = (strip s = [])"

text \<open>
  A form field is numeric when it is the numeral of an integer as Python writes them:
  inside the white space that \<open>int\<close> skips there is one optional sign, and what
  follows the sign, split at its underscores as \<open>str.split('_')\<close> does, is a list
  of groups none of which is empty and all of which hold digits only, with no more
  digits in all than the interpreter accepts. Its value is that of its digits read in
  base ten, the underscores left out, negated after a minus sign. A field that is not
  numeric is non-numeric.
\<close>

fun split_on :: "char \<Rightarrow> string \<Rightarrow> string list" where
  "split_on sep [] = [[]]"
| "split_on sep (c # cs) =
     (if c = sep then [] # split_on sep cs
      else (c # hd (split_on sep cs)) # tl (split_on sep cs))"

definition digit_group :: "string \<Rightarrow> bool" where
  "digit_group g = (g \<noteq> [] \<and> list_all is_digit g)"

definition numeric :: "string \<Rightarrow> bool" where
  "numeric s =
     (list_all digit_group (split_on (CHR ''_'') (unsigned (int_strip s))) \<and>
      length (filter is_digit (unsigned (int_strip s))) \<le> max_str_digits)"

definition digits_value :: "string \<Rightarrow> int" where
  "digits_value b = foldl (\<lambda>a c. 10 * a + digit_val c) 0 (filter (\<lambda>c. c \<noteq> CHR ''_'') b)"

definition numeral_value :: "string \<Rightarrow> int" where
  "numeral_value s =
     (if take 1 (int_strip s) = ''-'' then - digits_value (unsigned (int_strip s))
      else digits_value (unsigned (int_strip s)))"

definition non_numeric :: "string \<Rightarrow> bool" where
  "non_numeric s = (\<not> numeric s)"

text \<open>The data model of the specification on the age of a student: absent, or a
  non-negative integer.\<close>

definition spec_age_ok :: "student \<Rightarrow> bool" where
  "spec_age_ok s = (case age s of None \<Rightarrow> True | Some a \<Rightarrow> 0 \<le> a)"

definition demo_db_deleted :: db where
  "demo_db_deleted = snd (delete_student (Some 1) True demo_db_issued)"

definition demo_db_negative :: db where
  "demo_db_negative = snd (add_student ''Asha Rao'' ''-5'' ''CS'' ''2'' init_db)"

definition demo_db_updated :: db where
  "demo_db_updated = snd (update_student (Some 1) ''Asha Rao'' ''-5'' ''CS'' ''2'' demo_db)"

definition demo_db_blank :: db where
  "demo_db_blank = snd (add_book ''Compilers'' ''  '' ''--5''
                      (snd (add_student ''Asha Rao'' '' '' '''' ''5_'' init_db)))"

definition demo_return_day :: date where
  "demo_return_day = \<lparr>d_year = 2024, d_month = 3, d_day = 21\<rparr>"

definition demo_row :: issued_row where
  "demo_row = \<lparr>r_issue_id = 1, r_student_id = 1, r_student_name = ''Asha Rao'',
      r_book_id = 1, r_title = ''Compilers'', r_issue_date = ''2024-03-07'',
      r_return_date = []\<rparr>"

definition demo_db_returned :: db where
  "demo_db_returned =
     fst (snd (return_book (Some demo_row) True demo_return_day demo_page_issued demo_db_issued))"

definition demo_page_returned :: issue_page where
  "demo_page_returned =
     snd (snd (return_book (Some demo_row) True demo_return_day demo_page_issued demo_db_issued))"

text \<open>
  What the schema guarantees of every stored state: the three primary keys are unique,
  and a foreign key of \<open>issued_books\<close> that is not null names a row.
\<close>

definition schema_ok :: "db \<Rightarrow> bool" where
  "schema_ok d =
     (distinct (map student_id (students d)) \<and>
      distinct (map book_id (books d)) \<and>
      distinct (map issue_id (issued_books d)) \<and>
      list_all (\<lambda>r. fk_ok (map student_id (students d)) (ib_student_id r) \<and>
                     fk_ok (map book_id (books d)) (ib_book_id r)) (issued_books d))"

text \<open>The listing as the specification words it: a row for every issue record, newest
  issue first.\<close>

definition spec_lists_all :: "db \<Rightarrow> issued_row list \<Rightarrow> bool" where
  "spec_lists_all d rows = (map r_issue_id rows = rev (sort (map issue_id (issued_books d))))"

text \<open>The scenario continued: the issue button is pressed a second time, the pickers
  still showing the lines picked before.\<close>

definition demo_db_twice :: db where
  "demo_db_twice = fst (snd (issue_book demo_today demo_page_issued demo_db_issued))"

definition demo_page_twice :: issue_page where
  "demo_page_twice = snd (snd (issue_book demo_today demo_page_issued demo_db_issued))"

text \<open>The rows one issue record contributes to the join of \<open>fetch_issued\<close>.\<close>

definition joined :: "db \<Rightarrow> issued_book \<Rightarrow> (issued_book \<times> student \<times> book) list" where
  "joined d r = [(r, s, b). s \<leftarrow> students d, ib_student_id r = Some (student_id s),
                            b \<leftarrow> books d, ib_book_id r = Some (book_id b)]"

section \<open>Searching\<close>

text \<open>
  The operator \<open>LIKE\<close> of MySQL: in the pattern \<open>%\<close> stands for any string,
  \<open>_\<close> for any one character, a backslash makes the character after it stand for
  itself (a backslash at the very end stands for itself), and any other character
  stands for itself. \<open>LIKE\<close> compares character by character, and two characters
  are the same when the collation of the column says so. The tables are created
  without a collation and take that of the server, which the source does not show: it
  is the parameter \<open>coll\<close>. The default collations of MySQL are case-insensitive;
  on ASCII text they are \<open>ascii_ci\<close>, the folding of the ASCII letters.
\<close>

fun like :: "(char \<Rightarrow> char \<Rightarrow> bool) \<Rightarrow> string \<Rightarrow> string \<Rightarrow> bool" where
  "like coll [] s = (s = [])"
| "like coll (p # ps) [] = (p = CHR ''%'' \<and> like coll ps [])"
| "like coll (p # ps) (c # cs) =
     (if p = CHR ''%'' then like coll ps (c # cs) \<or> like coll (p # ps) cs
      else if p = CHR ''_'' then like coll ps cs
      else if p = CHR 0x5C then
        (case ps of [] \<Rightarrow> coll p c \<and> like coll [] cs | e # es \<Rightarrow> coll e c \<and> like coll es cs)
      else coll p c \<and> like coll ps cs)"

definition lower :: "char \<Rightarrow> char" where
  "lower c = (if 65 \<le> (of_char c :: nat) \<and> (of_char c :: nat) \<le> 90
              then char_of ((of_char c :: nat) + 32) else c)"

definition ascii_ci :: "char \<Rightarrow> char \<Rightarrow> bool" where
  "ascii_ci a b = (lower a = lower b)"

text \<open>\<open>column LIKE pattern\<close> in a \<open>WHERE\<close> clause: a null column selects nothing.\<close>

definition column_like :: "(char \<Rightarrow> char \<Rightarrow> bool) \<Rightarrow> string option \<Rightarrow> string \<Rightarrow> bool" where
  "column_like coll v pat = (case v of None \<Rightarrow> False | Some s \<Rightarrow> like coll pat s)"

text \<open>
  \<open>fetch_students\<close> and \<open>search_students\<close> (\<open>fetch_books\<close> and \<open>search_books\<close>)
  fill the table of their page; what they return here is the rows of that table.
  \<open>SELECT ... FROM students WHERE name LIKE %s OR course LIKE %s\<close>, both parameters
  being \<open>"%"+q+"%"\<close>.
\<close>

definition fetch_students :: "db \<Rightarrow> student list" where
  "fetch_students d = students d"

definition search_students :: "(char \<Rightarrow> char \<Rightarrow> bool) \<Rightarrow> string \<Rightarrow> db \<Rightarrow> student list" where
  "search_students coll search_var d =
     (let q = strip search_var in
      if q = [] then fetch_students d
      else filter (\<lambda>s. like coll (''%'' @ q @ ''%'') (name s) \<or>
                        column_like coll (course s) (''%'' @ q @ ''%'')) (students d))"

definition fetch_books :: "db \<Rightarrow> book list" where
  "fetch_books d = books d"

definition search_books :: "(char \<Rightarrow> char \<Rightarrow> bool) \<Rightarrow> string \<Rightarrow> db \<Rightarrow> book list" where
  "search_books coll search_var d =
     (let q = strip search_var in
      if q = [] then fetch_books d
      else filter (\<lambda>b. like coll (''%'' @ q @ ''%'') (title b) \<or>
                        column_like coll (author b) (''%'' @ q @ ''%'')) (books d))"

text \<open>
  The search as the specification words it: the rows in which the name or the course
  (the title or the author) contains the query as a substring, the characters compared
  as the collation does, so without regard to case under a case-insensitive one.
\<close>

fun prefix_under :: "(char \<Rightarrow> char \<Rightarrow> bool) \<Rightarrow> string \<Rightarrow> string \<Rightarrow> bool" where
  "prefix_under coll [] s = True"
| "prefix_under coll (q # qs) [] = False"
| "prefix_under coll (q # qs) (c # cs) = (coll q c \<and> prefix_under coll qs cs)"

fun contains_under :: "(char \<Rightarrow> char \<Rightarrow> bool) \<Rightarrow> string \<Rightarrow> string \<Rightarrow> bool" where
  "contains_under coll q [] = (q = [])"
| "contains_under coll q (c # cs) = (prefix_under coll q (c # cs) \<or> contains_under coll q cs)"

definition column_contains :: "(char \<Rightarrow> char \<Rightarrow> bool) \<Rightarrow> string \<Rightarrow> string option \<Rightarrow> bool" where
  "column_contains coll q v = (case v of None \<Rightarrow> False | Some s \<Rightarrow> contains_under coll q s)"

definition spec_search_students :: "(char \<Rightarrow> char \<Rightarrow> bool) \<Rightarrow> string \<Rightarrow> db \<Rightarrow> student list" where
  "spec_search_students coll q d =
     filter (\<lambda>s. contains_under coll q (name s) \<or> column_contains coll q (course s)) (students d)"

definition spec_search_books :: "(char \<Rightarrow> char \<Rightarrow> bool) \<Rightarrow> string \<Rightarrow> db \<Rightarrow> book list" where
  "spec_search_books coll q d =
     filter (\<lambda>b. contains_under coll q (title b) \<or> column_contains coll q (author b)) (books d)"

text \<open>A query is plain when it holds none of the three characters \<open>LIKE\<close> reads
  specially.\<close>

definition plain :: "string \<Rightarrow> bool" where
  "plain q = list_all (\<lambda>c. c \<noteq> CHR ''%'' \<and> c \<noteq> CHR ''_'' \<and> c \<noteq> CHR 0x5C) q"

text \<open>A query of the scenario: \<open>aho\<close> between a space and a no-break space.\<close>

definition demo_query :: string where
  "demo_query = '' aho'' @ [char_of (160 :: nat)]"

section \<open>Store failures\<close>

text \<open>
  Every connection commits each statement as it is executed (\<open>autocommit=True\<close>),
  and a handler runs its statements one after the other inside one \<open>try\<close>. When a
  connection or a statement fails, what was executed before stays written. For the
  handlers of the issue page, \<open>fault\<close> says which round trip to the store raises:
  the first or the second write of the handler, or, in \<open>refresh_all\<close>, the query of
  the students, that of the available books, or that of the issue records.
\<close>

datatype fault =
    NoFault
  | AtFirstWrite
  | AtSecondWrite
  | AtStudentsQuery
  | AtBooksQuery
  | AtIssuedQuery

text \<open>
  \<open>refresh_all\<close> with a failure. \<open>refresh_comboboxes\<close> has no \<open>try\<close>: when its
  first query raises nothing has changed, when its second raises the student dictionary
  is new and the book dictionary old, and the exception goes to the caller (the flag of
  the result). \<open>fetch_issued\<close> empties the table, and catches and shows the exception
  of its query itself.
\<close>

definition refresh_all_run :: "fault \<Rightarrow> db \<Rightarrow> issue_page \<Rightarrow> notice list \<times> bool \<times> issue_page" where
  "refresh_all_run f d p =
     (if f = AtStudentsQuery then ([], True, p)
      else if f = AtBooksQuery then
        ([], True,
         p\<lparr>student_map :=
             map (\<lambda>s. (picker_line (student_id s) (name s), student_id s)) (students d)\<rparr>)
      else if f = AtIssuedQuery then
        ([DBError OperationalError], False, (refresh_comboboxes d p)\<lparr>tree := []\<rparr>)
      else ([], False, refresh_all d p))"

text \<open>
  \<open>issue_book\<close> and \<open>return_book\<close> with a failure; they return all they show, in
  order. Without a failure they are \<open>issue_book\<close> and \<open>return_book\<close> above. The
  success message is shown before \<open>refresh_all\<close> is called, inside the same \<open>try\<close>.
\<close>

definition issue_book_run ::
  "fault \<Rightarrow> date \<Rightarrow> issue_page \<Rightarrow> db \<Rightarrow> notice list \<times> db \<times> issue_page" where
  "issue_book_run f today p d =
     (let ssel = student_cb p; bsel = book_cb p in
      if ssel = [] \<or> bsel = [] then ([ShowError ''Input'' ''Select student and book to issue''], d, p)
      else
        let sid = dict_get (student_map p) ssel;
            bid = dict_get (book_map p) bsel
        in if f = AtFirstWrite then ([DBError OperationalError], d, p)
           else case insert_issued sid bid today d of
             Inl e \<Rightarrow> ([DBError e], d, p)
           | Inr d1 \<Rightarrow>
               if f = AtSecondWrite then ([DBError OperationalError], d1, p)
               else
                 let d2 = update_book_status Issued bid d1
                 in case refresh_all_run f d2 p of
                      (ns, raised, p') \<Rightarrow>
                        (ShowInfo ''Success'' ''Book issued.'' # ns @
                           (if raised then [DBError OperationalError] else []),
                         d2, p'))"

definition return_book_run ::
  "fault \<Rightarrow> issued_row option \<Rightarrow> bool \<Rightarrow> date \<Rightarrow> issue_page \<Rightarrow> db
     \<Rightarrow> notice list \<times> db \<times> issue_page" where
  "return_book_run f sel confirm today p d =
     (case sel of
        None \<Rightarrow> ([ShowError ''Selection'' ''Select an issued record to return''], d, p)
      | Some vals \<Rightarrow>
          if r_return_date vals \<noteq> [] \<and> r_return_date vals \<noteq> ''None''
          then ([ShowInfo ''Info'' ''This book is already returned.''], d, p)
          else if \<not> confirm then ([], d, p)
          else if f = AtFirstWrite then ([DBError OperationalError], d, p)
          else
            let d1 = update_return_date today (r_issue_id vals) d
            in if f = AtSecondWrite then ([DBError OperationalError], d1, p)
               else
                 let d2 = update_book_status Available (Some (r_book_id vals)) d1
                 in case refresh_all_run f d2 p of
                      (ns, raised, p') \<Rightarrow>
                        (ShowInfo ''Success'' ''Book returned.'' # ns @
                           (if raised then [DBError OperationalError] else []),
                         d2, p'))"

section \<open>The application as a state machine\<close>

text \<open>
  \<open>MainApp\<close> stacks four pages and raises one of them; \<open>show_frame\<close> calls the
  \<open>on_show\<close> of the page it raises, which for the issue page is \<open>refresh_all\<close>, and
  raises the page also when \<open>on_show\<close> raised an exception. The state of the
  application is the store, the page that is raised, and the issue page (the tables of
  the other pages are filled from the store and read nowhere else).
\<close>

datatype page_name = HomePage | StudentPage | BookPage | IssuePage

record app =
  store :: db
  current :: page_name
  ipage :: issue_page

definition blank_issue_page :: issue_page where
  "blank_issue_page = \<lparr>student_cb = [], book_cb = [], student_map = [], book_map = [], tree = []\<rparr>"

definition init_app :: app where
  "init_app = \<lparr>store = init_db, current = HomePage, ipage = blank_issue_page\<rparr>"

text \<open>
  What can happen. \<open>Restart\<close> closes the program and starts it again on the same
  database. A button is enabled when its page is raised; a picker offers the keys of
  its dictionary; the focus of the table of issues is on one of its rows or on none.
  For the student and book pages the focused key is any key. Today's date and the
  answers to the confirmation dialogs come with the event, and so does the failure of
  the store, if there is one: in a handler of the issue page or in the \<open>refresh_all\<close>
  of \<open>show_frame\<close> it is a \<open>fault\<close>; a handler of the student or the book page
  has one statement, and when that fails (\<open>StoreFailure\<close>) the store is as it was.
\<close>

datatype event =
    Restart
  | ShowFrame fault page_name
  | AddStudent string string string string
  | UpdateStudent "int option" string string string string
  | DeleteStudent "int option" bool
  | AddBook string string string
  | UpdateBook "int option" string string string
  | DeleteBook "int option" bool
  | StoreFailure
  | PickStudent string
  | PickBook string
  | IssueBook fault date
  | ReturnBook fault "issued_row option" bool date

fun enabled :: "event \<Rightarrow> app \<Rightarrow> bool" where
  "enabled Restart s = True"
| "enabled (ShowFrame f pg) s =
     ((if current s = HomePage then pg \<noteq> HomePage else pg = HomePage) \<and>
      (f = NoFault \<or>
       pg = IssuePage \<and> (f = AtStudentsQuery \<or> f = AtBooksQuery \<or> f = AtIssuedQuery)))"
| "enabled (AddStudent nm ag co yr) s = (current s = StudentPage)"
| "enabled (UpdateStudent sel nm ag co yr) s = (current s = StudentPage)"
| "enabled (DeleteStudent sel confirm) s = (current s = StudentPage)"
| "enabled (AddBook ti au py) s = (current s = BookPage)"
| "enabled (UpdateBook sel ti au py) s = (current s = BookPage)"
| "enabled (DeleteBook sel confirm) s = (current s = BookPage)"
| "enabled StoreFailure s = (current s = StudentPage \<or> current s = BookPage)"
| "enabled (PickStudent l) s = (current s = IssuePage \<and> l \<in> fst ` set (student_map (ipage s)))"
| "enabled (PickBook l) s = (current s = IssuePage \<and> l \<in> fst ` set (book_map (ipage s)))"
| "enabled (IssueBook f today) s = (current s = IssuePage)"
| "enabled (ReturnBook f sel confirm today) s =
     (current s = IssuePage \<and> (case sel of None \<Rightarrow> True | Some v \<Rightarrow> v \<in> set (tree (ipage s))))"

fun step :: "event \<Rightarrow> app \<Rightarrow> app" where
  "step Restart s = \<lparr>store = store s, current = HomePage, ipage = blank_issue_page\<rparr>"
| "step (ShowFrame f pg) s =
     s\<lparr>current := pg,
       ipage := (if pg = IssuePage then snd (snd (refresh_all_run f (store s) (ipage s)))
                 else ipage s)\<rparr>"
| "step (AddStudent nm ag co yr) s = s\<lparr>store := snd (add_student nm ag co yr (store s))\<rparr>"
| "step (UpdateStudent sel nm ag co yr) s =
     s\<lparr>store := snd (update_student sel nm ag co yr (store s))\<rparr>"
| "step (DeleteStudent sel confirm) s = s\<lparr>store := snd (delete_student sel confirm (store s))\<rparr>"
| "step (AddBook ti au py) s = s\<lparr>store := snd (add_book ti au py (store s))\<rparr>"
| "step (UpdateBook sel ti au py) s = s\<lparr>store := snd (update_book sel ti au py (store s))\<rparr>"
| "step (DeleteBook sel confirm) s = s\<lparr>store := snd (delete_book sel confirm (store s))\<rparr>"
| "step StoreFailure s = s"
| "step (PickStudent l) s = s\<lparr>ipage := (ipage s)\<lparr>student_cb := l\<rparr>\<rparr>"
| "step (PickBook l) s = s\<lparr>ipage := (ipage s)\<lparr>book_cb := l\<rparr>\<rparr>"
| "step (IssueBook f today) s =
     (case issue_book_run f today (ipage s) (store s) of
        (ns, d, p) \<Rightarrow> s\<lparr>store := d, ipage := p\<rparr>)"
| "step (ReturnBook f sel confirm today) s =
     (case return_book_run f sel confirm today (ipage s) (store s) of
        (ns, d, p) \<Rightarrow> s\<lparr>store := d, ipage := p\<rparr>)"

text \<open>An event without a failure of the store.\<close>

fun no_fault :: "event \<Rightarrow> bool" where
  "no_fault (ShowFrame f pg) = (f = NoFault)"
| "no_fault (IssueBook f today) = (f = NoFault)"
| "no_fault (ReturnBook f sel confirm today) = (f = NoFault)"
| "no_fault StoreFailure = False"
| "no_fault e = True"

inductive reachable :: "app \<Rightarrow> bool" where
  start: "reachable init_app"
| next_state: "reachable s \<Longrightarrow> enabled e s \<Longrightarrow> reachable (step e s)"

text \<open>
  The soft invariant of the specification: every book has at most one open issue
  record, a record being open when its return date is null.
\<close>

definition open_issues :: "db \<Rightarrow> int \<Rightarrow> issued_book list" where
  "open_issues d k = filter (\<lambda>r. ib_book_id r = Some k \<and> return_date r = None) (issued_books d)"

definition one_open_issue :: "db \<Rightarrow> bool" where
  "one_open_issue d = list_all (\<lambda>b. length (open_issues d (book_id b)) \<le> 1) (books d)"

text \<open>
  What the workflow keeps true besides, and what makes the invariant inductive: a book
  key of an issue record names a book, the keys of the books lie below the counter,
  and an available book has no open issue record; while the issue page is raised, its
  book dictionary and its table are those of the store.
\<close>

definition workflow_inv :: "db \<Rightarrow> bool" where
  "workflow_inv d =
     (list_all (\<lambda>r. fk_ok (map book_id (books d)) (ib_book_id r)) (issued_books d) \<and>
      list_all (\<lambda>b. book_id b < next_book_id d) (books d) \<and>
      list_all (\<lambda>b. status b = Available \<longrightarrow> open_issues d (book_id b) = []) (books d) \<and>
      one_open_issue d)"

definition page_synced :: "db \<Rightarrow> issue_page \<Rightarrow> bool" where
  "page_synced d p =
     (book_map p = map (\<lambda>b. (picker_line (book_id b) (title b), book_id b)) (available_books d) \<and>
      tree p = map issued_cells (select_issued d))"

definition app_inv :: "app \<Rightarrow> bool" where
  "app_inv s = (workflow_inv (store s) \<and>
                (current s = IssuePage \<longrightarrow> page_synced (store s) (ipage s)))"

text \<open>Running a list of events, each of which must be enabled when its turn comes.\<close>

fun run_events :: "event list \<Rightarrow> app \<Rightarrow> app option" where
  "run_events [] s = Some s"
| "run_events (e # es) s = (if enabled e s then run_events es (step e s) else None)"

text \<open>The scenario as the user performs it, up to the moment before the issue button is
  pressed.\<close>

definition demo_events :: "event list" where
  "demo_events =
     [ShowFrame NoFault StudentPage, AddStudent ''Asha Rao'' ''20'' ''CS'' ''2'',
      ShowFrame NoFault HomePage, ShowFrame NoFault BookPage,
      AddBook ''Compilers'' ''Aho'' ''2006'', ShowFrame NoFault HomePage,
      ShowFrame NoFault IssuePage, PickStudent ''1 - Asha Rao'', PickBook ''1 - Compilers'']"

definition demo_app :: app where
  "demo_app = \<lparr>store = demo_db, current = IssuePage, ipage = demo_page\<rparr>"

text \<open>The scenario with a failure: the update of \<open>issue_book\<close> raises after its
  insert was committed.\<close>

definition demo_app_half :: app where
  "demo_app_half = step (IssueBook AtSecondWrite demo_today) demo_app"

section \<open>Verified properties\<close>

subsection \<open>The scenario, evaluated\<close>

lemma demo_db_value:
  "demo_db = \<lparr>students =
       [\<lparr>student_id = 1, name = ''Asha Rao'', age = Some 20, course = Some ''CS'',
         year = Some 2\<rparr>],
     books =
       [\<lparr>book_id = 1, title = ''Compilers'', author = Some ''Aho'', pub_year = Some 2006,
         status = Available\<rparr>],
     issued_books = [], next_student_id = 2, next_book_id = 2, next_issue_id = 1\<rparr>"
  by code_simp

lemma demo_page_value:
  "demo_page = \<lparr>student_cb = ''1 - Asha Rao'', book_cb = ''1 - Compilers'',
     student_map = [(''1 - Asha Rao'', 1)], book_map = [(''1 - Compilers'', 1)], tree = []\<rparr>"
  by code_simp

lemma demo_issue_notice:
  "fst (issue_book demo_today demo_page demo_db) = ShowInfo ''Success'' ''Book issued.''"
  by code_simp

lemma demo_issue:
  "issue_book demo_today demo_page demo_db =
     (ShowInfo ''Success'' ''Book issued.'', demo_db_issued, demo_page_issued)"
  unfolding demo_db_issued_def demo_page_issued_def
  using demo_issue_notice by (metis prod.collapse)

lemma demo_db_issued_value:
  "demo_db_issued = \<lparr>students =
       [\<lparr>student_id = 1, name = ''Asha Rao'', age = Some 20, course = Some ''CS'',
         year = Some 2\<rparr>],
     books =
       [\<lparr>book_id = 1, title = ''Compilers'', author = Some ''Aho'', pub_year = Some 2006,
         status = Issued\<rparr>],
     issued_books =
       [\<lparr>issue_id = 1, ib_student_id = Some 1, ib_book_id = Some 1,
         issue_date = Some \<lparr>d_year = 2024, d_month = 3, d_day = 7\<rparr>, return_date = None\<rparr>],
     next_student_id = 2, next_book_id = 2, next_issue_id = 2\<rparr>"
  by code_simp

lemma demo_page_issued_value:
  "demo_page_issued = \<lparr>student_cb = ''1 - Asha Rao'', book_cb = ''1 - Compilers'',
     student_map = [(''1 - Asha Rao'', 1)], book_map = [],
     tree = [\<lparr>r_issue_id = 1, r_student_id = 1, r_student_name = ''Asha Rao'',
              r_book_id = 1, r_title = ''Compilers'',
              r_issue_date = ''2024-03-07'', r_return_date = []\<rparr>]\<rparr>"
  by code_simp

subsection \<open>Issuing a book\<close>

lemma issue_book_success:
  assumes "issue_book today p d = (ShowInfo ''Success'' ''Book issued.'', d', p')"
  shows "\<exists>d1. insert_issued (dict_get (student_map p) (student_cb p))
                 (dict_get (book_map p) (book_cb p)) today d = Inr d1 \<and>
              d' = update_book_status Issued (dict_get (book_map p) (book_cb p)) d1 \<and>
              p' = refresh_all d' p"
  using assms
  by (auto simp: issue_book_def Let_def split: if_splits sum.splits)

lemma insert_issued_Inr:
  assumes "insert_issued sid bid today d = Inr d1"
  shows "d1 = d\<lparr>issued_books := issued_books d @
                    [\<lparr>issue_id = next_issue_id d, ib_student_id = sid, ib_book_id = bid,
                      issue_date = Some today, return_date = None\<rparr>],
                  next_issue_id := next_issue_id d + 1\<rparr>"
  using assms by (simp add: insert_issued_def split: if_splits)

lemma map_book_id_status:
  "map book_id (map (\<lambda>b. if P b then b\<lparr>status := st\<rparr> else b) bs) = map book_id bs"
  by (induction bs) auto

lemma status_after_update:
  assumes "x \<in> set (map (\<lambda>b. if book_id b = k then b\<lparr>status := st\<rparr> else b) bs)"
    and "book_id x = k"
  shows "status x = st"
proof -
  from assms(1) obtain b where b: "b \<in> set bs"
    and x: "x = (if book_id b = k then b\<lparr>status := st\<rparr> else b)"
    unfolding set_map image_iff by blast
  show ?thesis
  proof (cases "book_id b = k")
    case True
    with x show ?thesis by simp
  next
    case False
    with x have "x = b" by simp
    with False assms(2) show ?thesis by simp
  qed
qed

text \<open>
  Claim C1. When the book picked in the book picker has status \<open>Available\<close> and
  \<open>issue_book\<close> reports success, then afterwards that book is in the store with status
  \<open>Issued\<close>, the table \<open>issued_books\<close> is the old table followed by exactly one new
  record, which holds the picked student, the picked book, today's date as issue date
  and no return date, and the book is neither in the result of the query for available
  books nor in the refreshed dictionary behind the book picker.
\<close>

theorem issue_book_effect:
  assumes "issue_book today p d = (ShowInfo ''Success'' ''Book issued.'', d', p')"
    and "dict_get (book_map p) (book_cb p) = Some bid"
    and "\<exists>b \<in> set (books d). book_id b = bid \<and> status b = Available"
  shows "(\<exists>b \<in> set (books d'). book_id b = bid) \<and>
         (\<forall>b \<in> set (books d'). book_id b = bid \<longrightarrow> status b = Issued) \<and>
         issued_books d' = issued_books d @
            [\<lparr>issue_id = next_issue_id d,
              ib_student_id = dict_get (student_map p) (student_cb p),
              ib_book_id = Some bid, issue_date = Some today, return_date = None\<rparr>] \<and>
         bid \<notin> book_id ` set (available_books d') \<and>
         bid \<notin> snd ` set (book_map p')"
proof -
  from issue_book_success [OF assms(1)] obtain d1 where
    ins: "insert_issued (dict_get (student_map p) (student_cb p))
            (dict_get (book_map p) (book_cb p)) today d = Inr d1"
    and d': "d' = update_book_status Issued (dict_get (book_map p) (book_cb p)) d1"
    and p': "p' = refresh_all d' p"
    by blast
  note d1 = insert_issued_Inr [OF ins]
  have bk: "books d' = map (\<lambda>b. if book_id b = bid then b\<lparr>status := Issued\<rparr> else b) (books d)"
    by (simp add: d' d1 update_book_status_def assms(2))
  have ids: "map book_id (books d') = map book_id (books d)"
    unfolding bk by (rule map_book_id_status)
  have a: "\<exists>b \<in> set (books d'). book_id b = bid"
  proof -
    from assms(3) have "bid \<in> set (map book_id (books d))" by force
    then have "bid \<in> set (map book_id (books d'))" by (simp only: ids)
    then show ?thesis by auto
  qed
  have b: "\<forall>b \<in> set (books d'). book_id b = bid \<longrightarrow> status b = Issued"
  proof (intro ballI impI)
    fix x assume "x \<in> set (books d')" "book_id x = bid"
    then show "status x = Issued"
      unfolding bk by (rule status_after_update)
  qed
  have c: "issued_books d' = issued_books d @
            [\<lparr>issue_id = next_issue_id d,
              ib_student_id = dict_get (student_map p) (student_cb p),
              ib_book_id = Some bid, issue_date = Some today, return_date = None\<rparr>]"
    by (simp add: d' d1 update_book_status_def assms(2))
  have e: "bid \<notin> book_id ` set (available_books d')"
  proof
    assume "bid \<in> book_id ` set (available_books d')"
    then obtain x where "x \<in> set (books d')" "status x = Available" "book_id x = bid"
      unfolding available_books_def by auto
    with b show False by auto
  qed
  have f: "bid \<notin> snd ` set (book_map p')"
  proof -
    have "book_map p' =
        map (\<lambda>b. (picker_line (book_id b) (title b), book_id b)) (available_books d')"
      by (simp add: p' refresh_all_def fetch_issued_def refresh_comboboxes_def)
    then have "snd ` set (book_map p') = book_id ` set (available_books d')"
      by (simp add: image_image)
    with e show ?thesis by simp
  qed
  from a b c e f show ?thesis by (intro conjI)
qed

theorem issue_book_effect_witness:
  "issue_book demo_today demo_page demo_db =
     (ShowInfo ''Success'' ''Book issued.'', demo_db_issued, demo_page_issued) \<and>
   dict_get (book_map demo_page) (book_cb demo_page) = Some 1 \<and>
   (\<exists>b \<in> set (books demo_db). book_id b = 1 \<and> status b = Available) \<and>
   (\<exists>b \<in> set (books demo_db_issued). book_id b = 1) \<and>
   map status (books demo_db_issued) = [Issued] \<and>
   issued_books demo_db_issued = issued_books demo_db @
      [\<lparr>issue_id = next_issue_id demo_db,
        ib_student_id = dict_get (student_map demo_page) (student_cb demo_page),
        ib_book_id = Some 1, issue_date = Some demo_today, return_date = None\<rparr>] \<and>
   1 \<notin> book_id ` set (available_books demo_db_issued) \<and>
   1 \<notin> snd ` set (book_map demo_page_issued)"
proof -
  have h2: "dict_get (book_map demo_page) (book_cb demo_page) = Some 1"
    by (simp add: demo_page_value dict_get_def)
  have h3: "\<exists>b \<in> set (books demo_db). book_id b = 1 \<and> status b = Available"
    by (simp add: demo_db_value)
  have h4: "map status (books demo_db_issued) = [Issued]"
    by (simp add: demo_db_issued_value)
  from issue_book_effect [OF demo_issue h2 h3] demo_issue h2 h3 h4 show ?thesis
    by (intro conjI) blast+
qed

text \<open>
  Claim C10. When \<open>issue_book\<close> reports success, the table of students and the
  key counters of students and books are unchanged, the table \<open>issued_books\<close> is the old
  one followed by one record, and the table of books has the same rows in the same
  order, each with its key, title, author and year unchanged, and wholly unchanged
  unless its key is the picked one.
\<close>

theorem issue_book_frame:
  assumes "issue_book today p d = (ShowInfo ''Success'' ''Book issued.'', d', p')"
  shows "students d' = students d \<and>
         next_student_id d' = next_student_id d \<and>
         next_book_id d' = next_book_id d \<and>
         (\<exists>r. issued_books d' = issued_books d @ [r]) \<and>
         length (books d') = length (books d) \<and>
         (\<forall>i < length (books d).
            book_id (books d' ! i) = book_id (books d ! i) \<and>
            title (books d' ! i) = title (books d ! i) \<and>
            author (books d' ! i) = author (books d ! i) \<and>
            pub_year (books d' ! i) = pub_year (books d ! i) \<and>
            (Some (book_id (books d ! i)) \<noteq> dict_get (book_map p) (book_cb p)
               \<longrightarrow> books d' ! i = books d ! i))"
proof -
  let ?bid = "dict_get (book_map p) (book_cb p)"
  from issue_book_success [OF assms] obtain d1 where
    ins: "insert_issued (dict_get (student_map p) (student_cb p)) ?bid today d = Inr d1"
    and d': "d' = update_book_status Issued ?bid d1"
    by blast
  note d1 = insert_issued_Inr [OF ins]
  have bk: "books d' =
      map (\<lambda>b. if Some (book_id b) = ?bid then b\<lparr>status := Issued\<rparr> else b) (books d)"
    by (simp add: d' d1 update_book_status_def)
  have st: "students d' = students d" "next_student_id d' = next_student_id d"
    "next_book_id d' = next_book_id d"
    by (simp_all add: d' d1 update_book_status_def)
  have ib: "\<exists>r. issued_books d' = issued_books d @ [r]"
    by (simp add: d' d1 update_book_status_def)
  have len: "length (books d') = length (books d)"
    by (simp add: bk)
  have each: "\<forall>i < length (books d).
            book_id (books d' ! i) = book_id (books d ! i) \<and>
            title (books d' ! i) = title (books d ! i) \<and>
            author (books d' ! i) = author (books d ! i) \<and>
            pub_year (books d' ! i) = pub_year (books d ! i) \<and>
            (Some (book_id (books d ! i)) \<noteq> ?bid \<longrightarrow> books d' ! i = books d ! i)"
  proof (intro allI impI)
    fix i assume i: "i < length (books d)"
    then have "books d' ! i =
        (if Some (book_id (books d ! i)) = ?bid then (books d ! i)\<lparr>status := Issued\<rparr>
         else books d ! i)"
      by (simp add: bk)
    then show "book_id (books d' ! i) = book_id (books d ! i) \<and>
            title (books d' ! i) = title (books d ! i) \<and>
            author (books d' ! i) = author (books d ! i) \<and>
            pub_year (books d' ! i) = pub_year (books d ! i) \<and>
            (Some (book_id (books d ! i)) \<noteq> ?bid \<longrightarrow> books d' ! i = books d ! i)"
      by (cases "Some (book_id (books d ! i)) = ?bid") simp_all
  qed
  from st ib len each show ?thesis by blast
qed

theorem issue_book_frame_witness:
  "issue_book demo_today demo_page demo_db =
     (ShowInfo ''Success'' ''Book issued.'', demo_db_issued, demo_page_issued) \<and>
   students demo_db_issued = students demo_db \<and>
   next_student_id demo_db_issued = next_student_id demo_db \<and>
   next_book_id demo_db_issued = next_book_id demo_db \<and>
   (\<exists>r. issued_books demo_db_issued = issued_books demo_db @ [r]) \<and>
   length (books demo_db_issued) = length (books demo_db) \<and>
   title (books demo_db_issued ! 0) = title (books demo_db ! 0)"
proof -
  have "(0::nat) < length (books demo_db)"
    by (simp add: demo_db_value)
  with issue_book_frame [OF demo_issue] demo_issue show ?thesis
    by blast
qed

subsection \<open>What \<open>int\<close> accepts\<close>

lemma split_on_not_Nil: "split_on sep cs \<noteq> []"
  by (induction cs) simp_all

lemma digit_not_underscore: "is_digit c \<Longrightarrow> c \<noteq> CHR ''_''"
  by (auto simp: is_digit_def)

lemma parse_digits_groups:
  "parse_digits acc cs =
     (if list_all is_digit (hd (split_on (CHR ''_'') cs)) \<and>
         list_all digit_group (tl (split_on (CHR ''_'') cs))
      then Some (foldl (\<lambda>a c. 10 * a + digit_val c) acc (filter (\<lambda>c. c \<noteq> CHR ''_'') cs))
      else None)"
proof (induction acc cs rule: parse_digits.induct)
  case (1 acc)
  show ?case by simp
next
  case (2 acc c cs)
  show ?case
  proof (cases "is_digit c")
    case True
    with "2.IH"(1) digit_not_underscore [of c] show ?thesis by simp
  next
    case nd: False
    show ?thesis
    proof (cases "c = CHR ''_''")
      case False
      with nd show ?thesis by simp
    next
      case us: True
      show ?thesis
      proof (cases cs)
        case Nil
        with nd us show ?thesis by (simp add: digit_group_def)
      next
        case (Cons e es)
        show ?thesis
        proof (cases "is_digit e")
          case True
          from "2.IH"(2) [OF nd us Cons True] nd us Cons True digit_not_underscore [of e]
          show ?thesis by (simp add: digit_group_def)
        next
          case False
          with nd us Cons show ?thesis by (simp add: digit_group_def)
        qed
      qed
    qed
  qed
qed

lemma parse_unsigned_groups:
  "parse_unsigned b =
     (if list_all digit_group (split_on (CHR ''_'') b) then Some (digits_value b) else None)"
proof (cases b)
  case Nil
  then show ?thesis by (simp add: parse_unsigned_def digit_group_def)
next
  case (Cons c cs)
  show ?thesis
  proof (cases "is_digit c")
    case True
    with Cons digit_not_underscore [of c] show ?thesis
      by (simp add: parse_unsigned_def parse_digits_groups digit_group_def digits_value_def)
  next
    case False
    with Cons show ?thesis
      by (simp add: parse_unsigned_def digit_group_def)
  qed
qed

text \<open>\<open>int\<close> accepts the numeric fields and no others, and gives their value.\<close>

lemma py_int_numeric:
  "py_int s = (if numeric s then Some (numeral_value s) else None)"
proof (cases "max_str_digits < length (filter is_digit (unsigned (int_strip s)))")
  case True
  then show ?thesis by (simp add: py_int_def numeric_def Let_def)
next
  case lim: False
  show ?thesis
  proof (cases "int_strip s")
    case Nil
    with lim show ?thesis
      by (simp add: py_int_def numeric_def Let_def unsigned_def digit_group_def)
  next
    case (Cons c cs)
    show ?thesis
    proof (cases "c = CHR ''-''")
      case True
      with lim Cons show ?thesis
        by (simp add: py_int_def numeric_def numeral_value_def Let_def parse_unsigned_groups)
    next
      case False
      with lim Cons show ?thesis
        by (simp add: py_int_def numeric_def numeral_value_def Let_def parse_unsigned_groups)
    qed
  qed
qed

lemma int_or_none_numeric:
  "int_or_none s = (if numeric s then Some (numeral_value s) else None)"
  by (simp add: int_or_none_def py_int_numeric)

lemma int_or_none_non_numeric: "non_numeric s \<Longrightarrow> int_or_none s = None"
  by (simp add: int_or_none_numeric non_numeric_def)

lemma strip_Nil_all:
  assumes "rev (dropWhile P (rev (dropWhile P s))) = []"
  shows "list_all P s"
proof -
  from assms have "dropWhile P (rev (dropWhile P s)) = []" by simp
  then have "\<forall>x \<in> set (rev (dropWhile P s)). P x"
    by (simp add: dropWhile_eq_Nil_conv)
  then have "\<forall>x \<in> set (dropWhile P s). P x" by simp
  moreover have "\<forall>x \<in> set (takeWhile P s). P x"
    by (auto dest: set_takeWhileD)
  moreover have "set s = set (takeWhile P s) \<union> set (dropWhile P s)"
    by (metis set_append takeWhile_dropWhile_id)
  ultimately show ?thesis by (auto simp: list_all_iff)
qed

lemma space_not_numeral_char:
  "is_space c \<Longrightarrow> \<not> is_digit c \<and> c \<noteq> CHR ''-'' \<and> c \<noteq> CHR ''+''"
  by (auto simp: is_space_def is_digit_def)

lemma int_or_none_blank:
  assumes "blank s"
  shows "int_or_none s = None"
proof (cases "int_strip s")
  case Nil
  then show ?thesis by (simp add: int_or_none_def py_int_def Let_def unsigned_def)
next
  case (Cons c cs)
  from assms have all: "list_all is_space s"
    unfolding blank_def strip_def by (rule strip_Nil_all)
  have "set (int_strip s) \<subseteq> set s"
    unfolding int_strip_def by (auto dest!: set_dropWhileD)
  with Cons all have "is_space c" by (auto simp: list_all_iff)
  with space_not_numeral_char [of c] Cons show ?thesis
    by (simp add: int_or_none_def py_int_def Let_def unsigned_def parse_unsigned_def)
qed

lemma blank_non_numeric: "blank s \<Longrightarrow> non_numeric s"
  using int_or_none_blank [of s] by (auto simp: int_or_none_numeric non_numeric_def split: if_splits)

subsection \<open>Students: update, delete, and what is stored\<close>

text \<open>
  Claim C5. \<open>update_student\<close> on a key that names no row, with a name that is not
  empty once \<open>strip\<close> has been applied (the \<open>name\<close> of the source), shows the success
  message, so no error and no failure, and returns the store as it was.
\<close>

theorem update_student_unknown_id:
  assumes "strip name_var \<noteq> []"
    and "sid \<notin> student_id ` set (students d)"
  shows "update_student (Some sid) name_var age_var course_var year_var d =
           (ShowInfo ''Success'' ''Student updated.'', d)"
proof -
  have "map (\<lambda>s. if student_id s = sid
                  then s\<lparr>name := strip name_var, age := int_or_none age_var,
                         course := Some (strip course_var), year := int_or_none year_var\<rparr>
                  else s) (students d) = students d"
    using assms(2) by (intro map_idI) auto
  moreover have "\<not> (\<exists>s \<in> set (students d). student_id s = sid)"
    using assms(2) by auto
  ultimately show ?thesis
    using assms(1) by (simp add: update_student_def update_student_row_def Let_def)
qed

theorem update_student_unknown_id_witness:
  "strip ''Bob'' \<noteq> [] \<and> 7 \<notin> student_id ` set (students demo_db) \<and>
   update_student (Some 7) ''Bob'' ''21'' ''EE'' ''3'' demo_db =
     (ShowInfo ''Success'' ''Student updated.'', demo_db)"
proof -
  have h1: "strip ''Bob'' \<noteq> []" by code_simp
  have h2: "7 \<notin> student_id ` set (students demo_db)" by (simp add: demo_db_value)
  from update_student_unknown_id [OF h1 h2] h1 h2 show ?thesis by blast
qed

text \<open>
  Claim C7. A confirmed \<open>delete_student\<close> of an existing key shows success; the
  table of students is the old one without the rows of that key, the table
  \<open>issued_books\<close> is the old one without the records of that student, every row that
  remains is unchanged and in its old place, and the table of books is unchanged.
\<close>

theorem delete_student_cascade:
  assumes "sid \<in> student_id ` set (students d)"
    and "delete_student (Some sid) True d = (n, d')"
  shows "n = ShowInfo ''Success'' ''Student deleted.'' \<and>
         students d' = filter (\<lambda>s. student_id s \<noteq> sid) (students d) \<and>
         sid \<notin> student_id ` set (students d') \<and>
         issued_books d' = filter (\<lambda>r. ib_student_id r \<noteq> Some sid) (issued_books d) \<and>
         (\<forall>r \<in> set (issued_books d'). ib_student_id r \<noteq> Some sid) \<and>
         books d' = books d"
proof -
  from assms(2) have n: "n = ShowInfo ''Success'' ''Student deleted.''"
    and d': "d' = delete_student_row sid d"
    by (simp_all add: delete_student_def)
  have s: "students d' = filter (\<lambda>s. student_id s \<noteq> sid) (students d)"
    and i: "issued_books d' = filter (\<lambda>r. ib_student_id r \<noteq> Some sid) (issued_books d)"
    and b: "books d' = books d"
    by (simp_all add: d' delete_student_row_def)
  have s2: "sid \<notin> student_id ` set (students d')"
    unfolding s by auto
  have i2: "\<forall>r \<in> set (issued_books d'). ib_student_id r \<noteq> Some sid"
    unfolding i by simp
  from n s s2 i i2 b show ?thesis by simp
qed

theorem delete_student_cascade_witness:
  "1 \<in> student_id ` set (students demo_db_issued) \<and>
   delete_student (Some 1) True demo_db_issued =
     (ShowInfo ''Success'' ''Student deleted.'', demo_db_deleted) \<and>
   students demo_db_deleted = [] \<and>
   issued_books demo_db_deleted = [] \<and>
   books demo_db_deleted = books demo_db_issued"
proof -
  have h1: "1 \<in> student_id ` set (students demo_db_issued)"
    by (simp add: demo_db_issued_value)
  have h2: "delete_student (Some 1) True demo_db_issued =
      (fst (delete_student (Some 1) True demo_db_issued), demo_db_deleted)"
    by (simp add: demo_db_deleted_def)
  note r = delete_student_cascade [OF h1 h2]
  from r have "students demo_db_deleted = []" "issued_books demo_db_deleted = []"
    by (simp_all add: demo_db_issued_value)
  with r h1 h2 show ?thesis by simp
qed

lemma add_student_success:
  assumes "add_student nm ag co yr d = (ShowInfo ''Success'' ''Student added.'', d')"
  shows "insert_student (strip nm) (int_or_none ag) (strip co) (int_or_none yr) d = Inr d'"
  using assms by (auto simp: add_student_def Let_def split: if_splits sum.splits)

lemma insert_student_Inr:
  assumes "insert_student nm ag co yr d = Inr d'"
  shows "d' = d\<lparr>students := students d @
                    [\<lparr>student_id = next_student_id d, name = nm, age = ag,
                      course = Some co, year = yr\<rparr>],
                 next_student_id := next_student_id d + 1\<rparr> \<and>
         varchar_fits 100 nm \<and> opt_int_fits ag \<and> varchar_fits 100 co \<and> opt_int_fits yr"
  using assms by (simp add: insert_student_def split: if_splits)

lemma update_student_success:
  assumes "update_student (Some sid) nm ag co yr d = (ShowInfo ''Success'' ''Student updated.'', d')"
  shows "update_student_row (strip nm) (int_or_none ag) (strip co) (int_or_none yr) sid d = Inr d'"
  using assms by (auto simp: update_student_def Let_def split: if_splits sum.splits)

lemma update_student_row_Inr:
  assumes "update_student_row nm ag co yr sid d = Inr d'"
  shows "students d' = map (\<lambda>s. if student_id s = sid
                              then s\<lparr>name := nm, age := ag, course := Some co, year := yr\<rparr>
                              else s) (students d) \<and>
         ((\<exists>s \<in> set (students d). student_id s = sid) \<longrightarrow> opt_int_fits ag)"
  using assms by (auto simp: update_student_row_def split: if_splits)

lemma stored_age_raw:
  "(add_student nm ag co yr d = (ShowInfo ''Success'' ''Student added.'', d') \<longrightarrow>
      (\<exists>s. students d' = students d @ [s] \<and> age s = int_or_none ag \<and> opt_int_fits (age s))) \<and>
   (update_student (Some sid) nm ag co yr e = (ShowInfo ''Success'' ''Student updated.'', e') \<longrightarrow>
      (\<forall>s \<in> set (students e'). student_id s = sid \<longrightarrow>
          age s = int_or_none ag \<and> opt_int_fits (age s)))"
proof (intro conjI impI)
  assume "add_student nm ag co yr d = (ShowInfo ''Success'' ''Student added.'', d')"
  from insert_student_Inr [OF add_student_success [OF this]]
  show "\<exists>s. students d' = students d @ [s] \<and> age s = int_or_none ag \<and> opt_int_fits (age s)"
    by simp
next
  assume "update_student (Some sid) nm ag co yr e = (ShowInfo ''Success'' ''Student updated.'', e')"
  note r = update_student_row_Inr [OF update_student_success [OF this]]
  show "\<forall>s \<in> set (students e'). student_id s = sid \<longrightarrow>
          age s = int_or_none ag \<and> opt_int_fits (age s)"
  proof (intro ballI impI)
    fix s assume s: "s \<in> set (students e')" and k: "student_id s = sid"
    from s r obtain s0 where s0: "s0 \<in> set (students e)"
      and eq: "s = (if student_id s0 = sid
                    then s0\<lparr>name := strip nm, age := int_or_none ag,
                            course := Some (strip co), year := int_or_none yr\<rparr>
                    else s0)"
      unfolding set_map image_iff by auto
    show "age s = int_or_none ag \<and> opt_int_fits (age s)"
    proof (cases "student_id s0 = sid")
      case True
      with s0 r have "opt_int_fits (int_or_none ag)" by blast
      with True eq show ?thesis by simp
    next
      case False
      with eq have "s = s0" by simp
      with False k show ?thesis by simp
    qed
  qed
qed

text \<open>
  Claim C8, as the code has it. The age a successful \<open>add_student\<close> or
  \<open>update_student\<close> stores is null when the age field is not numeric (a blank field
  is not), and otherwise the value of the numeral in the field; what is stored lies in
  the range of \<open>INT\<close>. Nothing asks it to be non-negative: the numeral may carry a
  minus sign.
\<close>

theorem stored_age_is_parsed:
  "(add_student nm ag co yr d = (ShowInfo ''Success'' ''Student added.'', d') \<longrightarrow>
      (\<exists>s. students d' = students d @ [s] \<and>
           age s = (if numeric ag then Some (numeral_value ag) else None) \<and>
           opt_int_fits (age s))) \<and>
   (update_student (Some sid) nm ag co yr e = (ShowInfo ''Success'' ''Student updated.'', e') \<longrightarrow>
      (\<forall>s \<in> set (students e'). student_id s = sid \<longrightarrow>
          age s = (if numeric ag then Some (numeral_value ag) else None) \<and>
          opt_int_fits (age s)))"
  using stored_age_raw [of nm ag co yr d d' sid e e']
  by (simp only: int_or_none_numeric)

theorem stored_age_is_parsed_witness:
  "numeric ''-5'' \<and> numeral_value ''-5'' = - 5 \<and>
   add_student ''Asha Rao'' ''-5'' ''CS'' ''2'' init_db =
     (ShowInfo ''Success'' ''Student added.'', demo_db_negative) \<and>
   (\<exists>s. students demo_db_negative = students init_db @ [s] \<and>
        age s = Some (- 5) \<and> opt_int_fits (age s)) \<and>
   update_student (Some 1) ''Asha Rao'' ''-5'' ''CS'' ''2'' demo_db =
     (ShowInfo ''Success'' ''Student updated.'', demo_db_updated) \<and>
   map age (students demo_db_updated) = [Some (- 5)]"
proof -
  have n: "numeric ''-5''" and v: "numeral_value ''-5'' = - 5"
    by code_simp+
  have a: "fst (add_student ''Asha Rao'' ''-5'' ''CS'' ''2'' init_db) =
             ShowInfo ''Success'' ''Student added.''"
    by code_simp
  then have a': "add_student ''Asha Rao'' ''-5'' ''CS'' ''2'' init_db =
     (ShowInfo ''Success'' ''Student added.'', demo_db_negative)"
    unfolding demo_db_negative_def by (metis prod.collapse)
  have u: "fst (update_student (Some 1) ''Asha Rao'' ''-5'' ''CS'' ''2'' demo_db) =
             ShowInfo ''Success'' ''Student updated.''"
    by code_simp
  then have u': "update_student (Some 1) ''Asha Rao'' ''-5'' ''CS'' ''2'' demo_db =
     (ShowInfo ''Success'' ''Student updated.'', demo_db_updated)"
    unfolding demo_db_updated_def by (metis prod.collapse)
  have ids: "map student_id (students demo_db_updated) = [1]"
    by code_simp
  note r = stored_age_is_parsed [where nm = "''Asha Rao''" and ag = "''-5''" and co = "''CS''"
      and yr = "''2''" and d = init_db and d' = demo_db_negative and sid = 1 and e = demo_db
      and e' = demo_db_updated]
  from r a' n v have 1: "\<exists>s. students demo_db_negative = students init_db @ [s] \<and>
        age s = Some (- 5) \<and> opt_int_fits (age s)"
    by simp
  from r u' n v have 2: "\<forall>s \<in> set (students demo_db_updated). student_id s = 1 \<longrightarrow>
        age s = Some (- 5)"
    by simp
  from ids obtain s where s: "students demo_db_updated = [s]" "student_id s = 1"
    by (cases "students demo_db_updated") auto
  with 2 have "map age (students demo_db_updated) = [Some (- 5)]"
    by simp
  with n v a' u' 1 show ?thesis by blast
qed

text \<open>
  Claim C8 as the specification words it fails: adding a student with the age field
  \<open>-5\<close> succeeds and stores the age \<open>-5\<close>.
\<close>

theorem negative_age_stored:
  "add_student ''Asha Rao'' ''-5'' ''CS'' ''2'' init_db =
     (ShowInfo ''Success'' ''Student added.'', demo_db_negative) \<and>
   map age (students demo_db_negative) = [Some (- 5)] \<and>
   \<not> list_all spec_age_ok (students demo_db_negative)"
proof -
  have a: "fst (add_student ''Asha Rao'' ''-5'' ''CS'' ''2'' init_db) =
             ShowInfo ''Success'' ''Student added.''"
    by code_simp
  then have a': "add_student ''Asha Rao'' ''-5'' ''CS'' ''2'' init_db =
     (ShowInfo ''Success'' ''Student added.'', demo_db_negative)"
    unfolding demo_db_negative_def by (metis prod.collapse)
  have b: "map age (students demo_db_negative) = [Some (- 5)]"
    by code_simp
  have c: "\<not> list_all spec_age_ok (students demo_db_negative)"
    by code_simp
  from a' b c show ?thesis by blast
qed

subsection \<open>Blank and non-numeric form fields\<close>

lemma numeric_field_fits:
  "blank s \<or> non_numeric s \<or> opt_int_fits (int_or_none s) \<Longrightarrow> opt_int_fits (int_or_none s)"
  using int_or_none_blank int_or_none_non_numeric by (auto simp: opt_int_fits_def)

text \<open>
  Claim C9. Let the name (title) be there and fit its column, let the text field fit
  its column, and let each numeric field be blank, non-numeric (any field that is not
  the numeral of an integer), or an integer in the range of \<open>INT\<close>. Then
  \<open>add_student\<close> (\<open>add_book\<close>) shows success and appends one row. In that row the course (author) is the stripped text, so the empty string and
  not null when the field was blank, and a numeric column is null whenever its field
  was blank or non-numeric: such a field is never the reason of an error.
\<close>

theorem add_blank_fields:
  assumes "strip nm \<noteq> []" and "varchar_fits 100 (strip nm)" and "varchar_fits 100 (strip co)"
    and "blank ag \<or> non_numeric ag \<or> opt_int_fits (int_or_none ag)"
    and "blank yr \<or> non_numeric yr \<or> opt_int_fits (int_or_none yr)"
    and "int_fits (next_student_id d)"
    and "strip ti \<noteq> []" and "varchar_fits 255 (strip ti)" and "varchar_fits 150 (strip au)"
    and "blank py \<or> non_numeric py \<or> opt_int_fits (int_or_none py)"
    and "int_fits (next_book_id e)"
  shows "(\<exists>s. add_student nm ag co yr d =
             (ShowInfo ''Success'' ''Student added.'',
              d\<lparr>students := students d @ [s], next_student_id := next_student_id d + 1\<rparr>) \<and>
           course s = Some (strip co) \<and>
           (blank co \<longrightarrow> course s = Some []) \<and>
           (blank ag \<or> non_numeric ag \<longrightarrow> age s = None) \<and>
           (blank yr \<or> non_numeric yr \<longrightarrow> year s = None)) \<and>
         (\<exists>b. add_book ti au py e =
             (ShowInfo ''Success'' ''Book added.'',
              e\<lparr>books := books e @ [b], next_book_id := next_book_id e + 1\<rparr>) \<and>
           author b = Some (strip au) \<and>
           (blank au \<longrightarrow> author b = Some []) \<and>
           (blank py \<or> non_numeric py \<longrightarrow> pub_year b = None))"
proof (intro conjI)
  let ?s = "\<lparr>student_id = next_student_id d, name = strip nm, age = int_or_none ag,
             course = Some (strip co), year = int_or_none yr\<rparr>"
  have "add_student nm ag co yr d =
      (ShowInfo ''Success'' ''Student added.'',
       d\<lparr>students := students d @ [?s], next_student_id := next_student_id d + 1\<rparr>)"
    using assms(1-3,6) numeric_field_fits [OF assms(4)] numeric_field_fits [OF assms(5)]
    by (simp add: add_student_def insert_student_def Let_def)
  moreover have "course ?s = Some (strip co)" by simp
  moreover have "blank co \<longrightarrow> course ?s = Some []" by (simp add: blank_def)
  moreover have "blank ag \<or> non_numeric ag \<longrightarrow> age ?s = None"
    using int_or_none_blank int_or_none_non_numeric by auto
  moreover have "blank yr \<or> non_numeric yr \<longrightarrow> year ?s = None"
    using int_or_none_blank int_or_none_non_numeric by auto
  ultimately show "\<exists>s. add_student nm ag co yr d =
             (ShowInfo ''Success'' ''Student added.'',
              d\<lparr>students := students d @ [s], next_student_id := next_student_id d + 1\<rparr>) \<and>
           course s = Some (strip co) \<and>
           (blank co \<longrightarrow> course s = Some []) \<and>
           (blank ag \<or> non_numeric ag \<longrightarrow> age s = None) \<and>
           (blank yr \<or> non_numeric yr \<longrightarrow> year s = None)"
    by blast
next
  let ?b = "\<lparr>book_id = next_book_id e, title = strip ti, author = Some (strip au),
             pub_year = int_or_none py, status = Available\<rparr>"
  have "add_book ti au py e =
      (ShowInfo ''Success'' ''Book added.'',
       e\<lparr>books := books e @ [?b], next_book_id := next_book_id e + 1\<rparr>)"
    using assms(7-9,11) numeric_field_fits [OF assms(10)]
    by (simp add: add_book_def insert_book_def Let_def)
  moreover have "author ?b = Some (strip au)" by simp
  moreover have "blank au \<longrightarrow> author ?b = Some []" by (simp add: blank_def)
  moreover have "blank py \<or> non_numeric py \<longrightarrow> pub_year ?b = None"
    using int_or_none_blank int_or_none_non_numeric by auto
  ultimately show "\<exists>b. add_book ti au py e =
             (ShowInfo ''Success'' ''Book added.'',
              e\<lparr>books := books e @ [b], next_book_id := next_book_id e + 1\<rparr>) \<and>
           author b = Some (strip au) \<and>
           (blank au \<longrightarrow> author b = Some []) \<and>
           (blank py \<or> non_numeric py \<longrightarrow> pub_year b = None)"
    by blast
qed

theorem add_blank_fields_witness:
  "blank '' '' \<and> blank [] \<and> non_numeric ''5_'' \<and> blank ''  '' \<and> non_numeric ''--5'' \<and>
   map course (students demo_db_blank) = [Some []] \<and>
   map age (students demo_db_blank) = [None] \<and>
   map year (students demo_db_blank) = [None] \<and>
   map author (books demo_db_blank) = [Some []] \<and>
   map pub_year (books demo_db_blank) = [None] \<and>
   (\<exists>s. add_student ''Asha Rao'' '' '' [] ''5_'' init_db =
       (ShowInfo ''Success'' ''Student added.'',
        init_db\<lparr>students := students init_db @ [s],
                next_student_id := next_student_id init_db + 1\<rparr>) \<and>
       course s = Some [] \<and> age s = None \<and> year s = None) \<and>
   (\<exists>b. add_book ''Compilers'' ''  '' ''--5'' init_db =
       (ShowInfo ''Success'' ''Book added.'',
        init_db\<lparr>books := books init_db @ [b], next_book_id := next_book_id init_db + 1\<rparr>) \<and>
       author b = Some [] \<and> pub_year b = None)"
proof -
  have b1: "blank '' ''" and b2: "blank []" and b3: "non_numeric ''5_''"
    and b4: "blank ''  ''" and b5: "non_numeric ''--5''"
    by code_simp+
  have v: "map course (students demo_db_blank) = [Some []]"
    "map age (students demo_db_blank) = [None]"
    "map year (students demo_db_blank) = [None]"
    "map author (books demo_db_blank) = [Some []]"
    "map pub_year (books demo_db_blank) = [None]"
    by code_simp+
  have n1: "strip ''Asha Rao'' \<noteq> []" and n2: "varchar_fits 100 (strip ''Asha Rao'')"
    and n3: "varchar_fits 100 (strip [])" and n4: "int_fits (next_student_id init_db)"
    and n5: "strip ''Compilers'' \<noteq> []" and n6: "varchar_fits 255 (strip ''Compilers'')"
    and n7: "varchar_fits 150 (strip ''  '')" and n8: "int_fits (next_book_id init_db)"
    by code_simp+
  from b1 have a1: "blank '' '' \<or> non_numeric '' '' \<or> opt_int_fits (int_or_none '' '')"
    by blast
  from b3 have a2: "blank ''5_'' \<or> non_numeric ''5_'' \<or>
      opt_int_fits (int_or_none ''5_'')"
    by blast
  from b5 have a3: "blank ''--5'' \<or> non_numeric ''--5'' \<or> opt_int_fits (int_or_none ''--5'')"
    by blast
  note r = add_blank_fields [OF n1 n2 n3 a1 a2 n4 n5 n6 n7 a3 n8]
  from r b1 b2 b3 have s: "\<exists>s. add_student ''Asha Rao'' '' '' [] ''5_'' init_db =
       (ShowInfo ''Success'' ''Student added.'',
        init_db\<lparr>students := students init_db @ [s],
                next_student_id := next_student_id init_db + 1\<rparr>) \<and>
       course s = Some [] \<and> age s = None \<and> year s = None"
    by blast
  from r b4 b5 have b: "\<exists>b. add_book ''Compilers'' ''  '' ''--5'' init_db =
       (ShowInfo ''Success'' ''Book added.'',
        init_db\<lparr>books := books init_db @ [b], next_book_id := next_book_id init_db + 1\<rparr>) \<and>
       author b = Some [] \<and> pub_year b = None"
    by blast
  from b1 b2 b3 b4 b5 v s b show ?thesis by (intro conjI)
qed

subsection \<open>Returning a book\<close>

lemma set_select_issued:
  "set (select_issued d) =
     {(r, s, b). r \<in> set (issued_books d) \<and> s \<in> set (students d) \<and> b \<in> set (books d) \<and>
                 ib_student_id r = Some (student_id s) \<and> ib_book_id r = Some (book_id b)}"
  by (auto simp: select_issued_def)

lemma length_zfill: "w \<le> length (zfill w s)"
  by (simp add: zfill_def)

lemma length_isoformat: "10 \<le> length (isoformat t)"
proof -
  have "4 \<le> length (zfill 4 (str_nat (d_year t)))"
    and "2 \<le> length (zfill 2 (str_nat (d_month t)))"
    and "2 \<le> length (zfill 2 (str_nat (d_day t)))"
    by (rule length_zfill)+
  then show ?thesis by (simp add: isoformat_def)
qed

lemma isoformat_not_blank: "isoformat t \<noteq> [] \<and> isoformat t \<noteq> ''None''"
proof -
  have "isoformat t \<noteq> []"
    using length_isoformat [of t] by auto
  moreover have "isoformat t \<noteq> ''None''"
  proof
    assume "isoformat t = ''None''"
    then have "length (isoformat t) = 4" by simp
    with length_isoformat [of t] show False by simp
  qed
  ultimately show ?thesis by simp
qed

lemma return_book_closed_row:
  assumes "r_return_date v = isoformat t"
  shows "return_book (Some v) c t2 p d = (ShowInfo ''Info'' ''This book is already returned.'', d, p)"
  using assms isoformat_not_blank [of t] by (simp add: return_book_def)

lemma return_date_after_update:
  assumes "x \<in> set (map (\<lambda>r. if issue_id r = k then r\<lparr>return_date := v\<rparr> else r) rs)"
    and "issue_id x = k"
  shows "return_date x = v"
proof -
  from assms(1) obtain r where r: "r \<in> set rs"
    and x: "x = (if issue_id r = k then r\<lparr>return_date := v\<rparr> else r)"
    unfolding set_map image_iff by blast
  show ?thesis
  proof (cases "issue_id r = k")
    case True
    with x show ?thesis by simp
  next
    case False
    with x have "x = r" by simp
    with False assms(2) show ?thesis by simp
  qed
qed

text \<open>
  Claim C2. Let the table of the page show the store, and let \<open>r\<close> be an open
  record whose student \<open>s\<close> and book \<open>b\<close> exist, so that its row is in the table.
  A confirmed \<open>return_book\<close> on that row shows success; afterwards the record carries
  today's date as return date, the book has status \<open>Available\<close>, and the refreshed
  table shows the record with the ISO form of that date. \<open>return_book\<close> on any row of
  that record in the refreshed table, whatever the answer to the confirmation, shows
  that the book is already returned and leaves store and page as they are.
\<close>

theorem return_book_twice:
  assumes "tree p = map issued_cells (select_issued d)"
    and "r \<in> set (issued_books d)" and "return_date r = None"
    and "s \<in> set (students d)" and "ib_student_id r = Some (student_id s)"
    and "b \<in> set (books d)" and "ib_book_id r = Some (book_id b)"
  shows "issued_cells (r, s, b) \<in> set (tree p) \<and>
    (\<exists>d' p'. return_book (Some (issued_cells (r, s, b))) True today p d =
               (ShowInfo ''Success'' ''Book returned.'', d', p') \<and>
       r\<lparr>return_date := Some today\<rparr> \<in> set (issued_books d') \<and>
       (\<forall>x \<in> set (issued_books d'). issue_id x = issue_id r \<longrightarrow> return_date x = Some today) \<and>
       b\<lparr>status := Available\<rparr> \<in> set (books d') \<and>
       (\<forall>x \<in> set (books d'). book_id x = book_id b \<longrightarrow> status x = Available) \<and>
       (issued_cells (r, s, b))\<lparr>r_return_date := isoformat today\<rparr> \<in> set (tree p') \<and>
       (\<forall>v \<in> set (tree p'). r_issue_id v = issue_id r \<longrightarrow>
          (\<forall>c t2. return_book (Some v) c t2 p' d' =
                    (ShowInfo ''Info'' ''This book is already returned.'', d', p'))))"
proof -
  let ?vals = "issued_cells (r, s, b)"
  define d1 where "d1 = update_return_date today (issue_id r) d"
  define d' where "d' = update_book_status Available (Some (book_id b)) d1"
  define p' where "p' = refresh_all d' p"
  have cells: "r_issue_id ?vals = issue_id r" "r_book_id ?vals = book_id b"
    "r_return_date ?vals = []"
    using assms(3) by (simp_all add: issued_cells_def date_cell_def)
  have in_tree: "?vals \<in> set (tree p)"
    using assms by (simp add: set_select_issued image_iff) blast
  have run: "return_book (Some ?vals) True today p d =
      (ShowInfo ''Success'' ''Book returned.'', d', p')"
    by (simp add: return_book_def cells Let_def d1_def d'_def p'_def)
  have ib: "issued_books d' =
      map (\<lambda>x. if issue_id x = issue_id r then x\<lparr>return_date := Some today\<rparr> else x)
        (issued_books d)"
    by (simp add: d'_def d1_def update_book_status_def update_return_date_def)
  have bk: "books d' =
      map (\<lambda>x. if book_id x = book_id b then x\<lparr>status := Available\<rparr> else x) (books d)"
    by (simp add: d'_def d1_def update_book_status_def update_return_date_def)
  have st: "students d' = students d"
    by (simp add: d'_def d1_def update_book_status_def update_return_date_def)
  have r': "r\<lparr>return_date := Some today\<rparr> \<in> set (issued_books d')"
    unfolding ib set_map image_iff using assms(2) by (intro bexI [of _ r]) simp_all
  have all_r: "\<forall>x \<in> set (issued_books d'). issue_id x = issue_id r \<longrightarrow>
      return_date x = Some today"
  proof (intro ballI impI)
    fix x assume "x \<in> set (issued_books d')" "issue_id x = issue_id r"
    then show "return_date x = Some today"
      unfolding ib by (rule return_date_after_update)
  qed
  have b': "b\<lparr>status := Available\<rparr> \<in> set (books d')"
    unfolding bk set_map image_iff using assms(6) by (intro bexI [of _ b]) simp_all
  have all_b: "\<forall>x \<in> set (books d'). book_id x = book_id b \<longrightarrow> status x = Available"
  proof (intro ballI impI)
    fix x assume "x \<in> set (books d')" "book_id x = book_id b"
    then show "status x = Available"
      unfolding bk by (rule status_after_update)
  qed
  have tree': "tree p' = map issued_cells (select_issued d')"
    by (simp add: p'_def refresh_all_def fetch_issued_def refresh_comboboxes_def)
  have "(r\<lparr>return_date := Some today\<rparr>, s, b\<lparr>status := Available\<rparr>) \<in> set (select_issued d')"
    using r' b' assms(4,5,7) by (simp add: set_select_issued st)
  then have "issued_cells (r\<lparr>return_date := Some today\<rparr>, s, b\<lparr>status := Available\<rparr>)
      \<in> set (tree p')"
    unfolding tree' by simp
  moreover have "issued_cells (r\<lparr>return_date := Some today\<rparr>, s, b\<lparr>status := Available\<rparr>) =
      ?vals\<lparr>r_return_date := isoformat today\<rparr>"
    by (simp add: issued_cells_def date_cell_def)
  ultimately have row': "?vals\<lparr>r_return_date := isoformat today\<rparr> \<in> set (tree p')"
    by simp
  have again: "\<forall>v \<in> set (tree p'). r_issue_id v = issue_id r \<longrightarrow>
          (\<forall>c t2. return_book (Some v) c t2 p' d' =
                    (ShowInfo ''Info'' ''This book is already returned.'', d', p'))"
  proof (intro ballI impI allI)
    fix v c t2 assume v: "v \<in> set (tree p')" and k: "r_issue_id v = issue_id r"
    from v obtain x s2 b2 where x: "(x, s2, b2) \<in> set (select_issued d')"
      and veq: "v = issued_cells (x, s2, b2)"
      unfolding tree' by auto
    from x have xin: "x \<in> set (issued_books d')"
      by (simp add: set_select_issued)
    from veq k have "issue_id x = issue_id r"
      by (simp add: issued_cells_def)
    with all_r xin have "return_date x = Some today" by blast
    with veq have "r_return_date v = isoformat today"
      by (simp add: issued_cells_def date_cell_def)
    then show "return_book (Some v) c t2 p' d' =
        (ShowInfo ''Info'' ''This book is already returned.'', d', p')"
      by (rule return_book_closed_row)
  qed
  from in_tree run r' all_r b' all_b row' again show ?thesis by blast
qed

theorem return_book_twice_witness:
  "tree demo_page_issued = map issued_cells (select_issued demo_db_issued) \<and>
   demo_row \<in> set (tree demo_page_issued) \<and>
   return_book (Some demo_row) True demo_return_day demo_page_issued demo_db_issued =
     (ShowInfo ''Success'' ''Book returned.'', demo_db_returned, demo_page_returned) \<and>
   map return_date (issued_books demo_db_returned) = [Some demo_return_day] \<and>
   map status (books demo_db_returned) = [Available] \<and>
   demo_row\<lparr>r_return_date := isoformat demo_return_day\<rparr> \<in> set (tree demo_page_returned) \<and>
   return_book (Some (demo_row\<lparr>r_return_date := isoformat demo_return_day\<rparr>)) True
       demo_return_day demo_page_returned demo_db_returned =
     (ShowInfo ''Info'' ''This book is already returned.'', demo_db_returned, demo_page_returned)"
proof -
  let ?r = "\<lparr>issue_id = 1, ib_student_id = Some 1, ib_book_id = Some 1,
             issue_date = Some \<lparr>d_year = 2024, d_month = 3, d_day = 7\<rparr>, return_date = None\<rparr>"
  let ?s = "\<lparr>student_id = 1, name = ''Asha Rao'', age = Some 20, course = Some ''CS'',
             year = Some 2\<rparr>"
  let ?b = "\<lparr>book_id = 1, title = ''Compilers'', author = Some ''Aho'', pub_year = Some 2006,
             status = Issued\<rparr>"
  have h1: "tree demo_page_issued = map issued_cells (select_issued demo_db_issued)"
  proof -
    from issue_book_success [OF demo_issue]
    have "demo_page_issued = refresh_all demo_db_issued demo_page" by blast
    then have "tree demo_page_issued = tree (refresh_all demo_db_issued demo_page)"
      by simp
    then show ?thesis
      by (simp add: refresh_all_def fetch_issued_def refresh_comboboxes_def)
  qed
  have h2: "?r \<in> set (issued_books demo_db_issued)" and h3: "return_date ?r = None"
    and h4: "?s \<in> set (students demo_db_issued)"
    and h5: "ib_student_id ?r = Some (student_id ?s)"
    and h6: "?b \<in> set (books demo_db_issued)"
    and h7: "ib_book_id ?r = Some (book_id ?b)"
    by (simp_all add: demo_db_issued_value)
  have "isoformat \<lparr>d_year = 2024, d_month = 3, d_day = 7\<rparr> = ''2024-03-07''"
    by code_simp
  then have row: "issued_cells (?r, ?s, ?b) = demo_row"
    by (simp add: issued_cells_def date_cell_def demo_row_def)
  have id: "r_issue_id demo_row = 1"
    by (simp add: demo_row_def)
  have n: "fst (return_book (Some demo_row) True demo_return_day demo_page_issued
      demo_db_issued) = ShowInfo ''Success'' ''Book returned.''"
    by (simp add: return_book_def demo_row_def Let_def)
  then have run: "return_book (Some demo_row) True demo_return_day demo_page_issued
      demo_db_issued =
        (ShowInfo ''Success'' ''Book returned.'', demo_db_returned, demo_page_returned)"
    unfolding demo_db_returned_def demo_page_returned_def by (metis prod.collapse)
  have v: "map return_date (issued_books demo_db_returned) = [Some demo_return_day]"
    "map status (books demo_db_returned) = [Available]"
    by (simp_all add: demo_db_returned_def return_book_def demo_row_def Let_def
        update_return_date_def update_book_status_def demo_db_issued_value)
  note t = return_book_twice [OF h1 h2 h3 h4 h5 h6 h7, of demo_return_day, unfolded row]
  from t have a: "demo_row \<in> set (tree demo_page_issued)" by blast
  from t run have b: "demo_row\<lparr>r_return_date := isoformat demo_return_day\<rparr>
      \<in> set (tree demo_page_returned)"
    by auto
  from t run have "\<forall>v \<in> set (tree demo_page_returned). r_issue_id v = 1 \<longrightarrow>
          (\<forall>c t2. return_book (Some v) c t2 demo_page_returned demo_db_returned =
             (ShowInfo ''Info'' ''This book is already returned.'',
              demo_db_returned, demo_page_returned))"
    by auto
  with b id have c: "return_book (Some (demo_row\<lparr>r_return_date := isoformat demo_return_day\<rparr>))
       True demo_return_day demo_page_returned demo_db_returned =
     (ShowInfo ''Info'' ''This book is already returned.'', demo_db_returned, demo_page_returned)"
    by simp
  from h1 a run v b c show ?thesis by (intro conjI)
qed

subsection \<open>The listing of issue records\<close>

lemma filter_key_at_most_one:
  "distinct (map f xs) \<Longrightarrow> length (filter (\<lambda>x. k = Some (f x)) xs) \<le> 1"
proof (induction xs)
  case Nil
  then show ?case by simp
next
  case (Cons x xs)
  show ?case
  proof (cases "k = Some (f x)")
    case False
    with Cons show ?thesis by simp
  next
    case True
    from Cons.prems have "f x \<notin> f ` set xs" by simp
    with True have "filter (\<lambda>y. k = Some (f y)) xs = []"
      by (auto simp: filter_empty_conv)
    with True show ?thesis by simp
  qed
qed

lemma length_inner_join:
  "length (concat (map (\<lambda>b. if c b then [g b] else []) bs)) = length (filter c bs)"
  by (induction bs) simp_all

lemma length_join:
  "length (concat (map (\<lambda>s. if c1 s then concat (map (\<lambda>b. if c2 b then [g s b] else []) bs)
                              else []) ss)) =
     length (filter c1 ss) * length (filter c2 bs)"
  by (induction ss) (simp_all add: length_inner_join)

lemma select_issued_joined:
  "select_issued d = sort_key (\<lambda>(r, s, b). - issue_id r) (concat (map (joined d) (issued_books d)))"
  by (simp add: select_issued_def joined_def [abs_def])

lemma length_joined:
  assumes "distinct (map student_id (students d))" and "distinct (map book_id (books d))"
  shows "length (joined d r) \<le> 1"
proof -
  have "length (joined d r) =
      length (filter (\<lambda>s. ib_student_id r = Some (student_id s)) (students d)) *
      length (filter (\<lambda>b. ib_book_id r = Some (book_id b)) (books d))"
    unfolding joined_def by (simp add: length_join)
  moreover have "length (filter (\<lambda>s. ib_student_id r = Some (student_id s)) (students d)) \<le> 1"
    using assms(1) by (rule filter_key_at_most_one)
  moreover have "length (filter (\<lambda>b. ib_book_id r = Some (book_id b)) (books d)) \<le> 1"
    using assms(2) by (rule filter_key_at_most_one)
  ultimately show ?thesis
    by (metis mult_le_mono nat_mult_1)
qed

lemma fst_joined: "t \<in> set (joined d r) \<Longrightarrow> fst t = r"
  by (auto simp: joined_def)

lemma keys_joined:
  "map (\<lambda>t. issue_id (fst t)) (joined d r) = replicate (length (joined d r)) (issue_id r)"
proof -
  have "map (\<lambda>t. issue_id (fst t)) (joined d r) = map (\<lambda>t. issue_id r) (joined d r)"
    by (rule map_cong) (simp_all add: fst_joined)
  then show ?thesis by (simp add: map_replicate_const)
qed

lemma distinct_keys_concat:
  assumes "\<And>r. length (J r) \<le> 1" and "distinct (map issue_id rs)"
    and "\<And>r. map (\<lambda>t. issue_id (fst t)) (J r) = replicate (length (J r)) (issue_id r)"
  shows "distinct (map (\<lambda>t. issue_id (fst t)) (concat (map J rs)))"
  using assms(2)
proof (induction rs)
  case Nil
  then show ?case by simp
next
  case (Cons r rs)
  have sub: "set (map (\<lambda>t. issue_id (fst t)) (concat (map J rs))) \<subseteq> issue_id ` set rs"
  proof
    fix k assume "k \<in> set (map (\<lambda>t. issue_id (fst t)) (concat (map J rs)))"
    then obtain x where x: "x \<in> set rs" and "k \<in> set (map (\<lambda>t. issue_id (fst t)) (J x))"
      by auto
    with assms(3) [of x] have "k = issue_id x"
      by auto
    with x show "k \<in> issue_id ` set rs" by simp
  qed
  from Cons.prems have notin: "issue_id r \<notin> issue_id ` set rs" by simp
  have d1: "distinct (replicate (length (J r)) (issue_id r))"
    using assms(1) [of r] by (cases "length (J r)") simp_all
  have "set (replicate (length (J r)) (issue_id r)) \<subseteq> {issue_id r}"
    by auto
  with sub notin have disj: "set (replicate (length (J r)) (issue_id r)) \<inter>
      set (map (\<lambda>t. issue_id (fst t)) (concat (map J rs))) = {}"
    by blast
  from Cons have d2: "distinct (map (\<lambda>t. issue_id (fst t)) (concat (map J rs)))"
    by simp
  from d1 d2 disj show ?case
    by (simp add: assms(3) [of r])
qed

lemma distinct_select_issued:
  assumes "schema_ok d"
  shows "distinct (map (\<lambda>t. issue_id (fst t)) (select_issued d))"
proof -
  from assms have s: "distinct (map student_id (students d))"
    and b: "distinct (map book_id (books d))"
    and i: "distinct (map issue_id (issued_books d))"
    by (simp_all add: schema_ok_def)
  have "distinct (map (\<lambda>t. issue_id (fst t)) (concat (map (joined d) (issued_books d))))"
    using length_joined [OF s b] i keys_joined by (rule distinct_keys_concat)
  then show ?thesis
    unfolding select_issued_joined
    by (simp add: distinct_map)
qed

lemma sorted_select_issued:
  "sorted (map (\<lambda>t. - issue_id (fst t)) (select_issued d))"
proof -
  have "(\<lambda>t. - issue_id (fst t)) = (\<lambda>(r :: issued_book, s :: student, b :: book). - issue_id r)"
    by auto
  then show ?thesis
    unfolding select_issued_def by (simp only: sorted_sort_key)
qed

lemma newest_first:
  assumes "sorted (map (\<lambda>t. - f t) xs)" and "distinct (map f xs)"
  shows "sorted_wrt (\<lambda>v w. (f w :: int) < f v) xs"
  using assms
proof (induction xs)
  case Nil
  then show ?case by simp
next
  case (Cons x xs)
  from Cons.prems(1) have "\<forall>y \<in> set xs. f y \<le> f x"
    by simp
  moreover from Cons.prems(2) have "f x \<notin> f ` set xs"
    by simp
  then have "\<forall>y \<in> set xs. f y \<noteq> f x"
    by (metis imageI)
  ultimately have "\<forall>y \<in> set xs. f y \<le> f x" and "\<forall>y \<in> set xs. f y \<noteq> f x"
    by blast+
  then have "\<forall>y \<in> set xs. f y < f x"
    by (simp add: order_less_le)
  with Cons show ?case by simp
qed

text \<open>
  Claim C6, as the code has it. In a state the schema allows, the table that
  \<open>fetch_issued\<close> fills holds exactly the rows of the inner join: one for every issue
  record together with the student and the book its two keys name, made of the
  record's key, the student's key and name, the book's key and title, and the two
  dates, each in ISO form, or the empty string when the date is null. The rows come
  newest issue first, no issue twice. The issues listed are those of the records whose
  student key and book key are both not null; a record with a null key is not listed.
\<close>

theorem fetch_issued_listing:
  assumes "schema_ok d"
  shows "set (tree (fetch_issued d p)) =
           {\<lparr>r_issue_id = issue_id r, r_student_id = student_id s, r_student_name = name s,
             r_book_id = book_id b, r_title = title b,
             r_issue_date = (case issue_date r of None \<Rightarrow> [] | Some t \<Rightarrow> isoformat t),
             r_return_date = (case return_date r of None \<Rightarrow> [] | Some t \<Rightarrow> isoformat t)\<rparr>
            | r s b. r \<in> set (issued_books d) \<and> s \<in> set (students d) \<and> b \<in> set (books d) \<and>
                     ib_student_id r = Some (student_id s) \<and> ib_book_id r = Some (book_id b)} \<and>
         sorted_wrt (\<lambda>v w. r_issue_id w < r_issue_id v) (tree (fetch_issued d p)) \<and>
         r_issue_id ` set (tree (fetch_issued d p)) =
           issue_id ` {r \<in> set (issued_books d). ib_student_id r \<noteq> None \<and> ib_book_id r \<noteq> None}"
proof (intro conjI)
  have tree: "tree (fetch_issued d p) = map issued_cells (select_issued d)"
    by (simp add: fetch_issued_def)
  have key: "\<And>t. r_issue_id (issued_cells t) = issue_id (fst t)"
    by (simp add: issued_cells_def split: prod.splits)
  show "set (tree (fetch_issued d p)) =
           {\<lparr>r_issue_id = issue_id r, r_student_id = student_id s, r_student_name = name s,
             r_book_id = book_id b, r_title = title b,
             r_issue_date = (case issue_date r of None \<Rightarrow> [] | Some t \<Rightarrow> isoformat t),
             r_return_date = (case return_date r of None \<Rightarrow> [] | Some t \<Rightarrow> isoformat t)\<rparr>
            | r s b. r \<in> set (issued_books d) \<and> s \<in> set (students d) \<and> b \<in> set (books d) \<and>
                     ib_student_id r = Some (student_id s) \<and> ib_book_id r = Some (book_id b)}"
  proof -
    have "set (tree (fetch_issued d p)) =
        issued_cells ` {(r, s, b). r \<in> set (issued_books d) \<and> s \<in> set (students d) \<and>
           b \<in> set (books d) \<and> ib_student_id r = Some (student_id s) \<and>
           ib_book_id r = Some (book_id b)}"
      by (simp add: tree set_select_issued)
    also have "\<dots> = {issued_cells (r, s, b) | r s b. r \<in> set (issued_books d) \<and>
           s \<in> set (students d) \<and> b \<in> set (books d) \<and>
           ib_student_id r = Some (student_id s) \<and> ib_book_id r = Some (book_id b)}"
      by auto
    finally show ?thesis
      by (simp add: issued_cells_def date_cell_def)
  qed
  have "sorted_wrt (\<lambda>v w. issue_id (fst w) < issue_id (fst v)) (select_issued d)"
    using sorted_select_issued distinct_select_issued [OF assms] by (rule newest_first)
  then show "sorted_wrt (\<lambda>v w. r_issue_id w < r_issue_id v) (tree (fetch_issued d p))"
    unfolding tree by (simp add: sorted_wrt_map key)
  have ids: "r_issue_id ` set (tree (fetch_issued d p)) =
      (\<lambda>t. issue_id (fst t)) ` set (select_issued d)"
    unfolding tree by (simp add: image_image key)
  show "r_issue_id ` set (tree (fetch_issued d p)) =
           issue_id ` {r \<in> set (issued_books d). ib_student_id r \<noteq> None \<and> ib_book_id r \<noteq> None}"
  proof (intro equalityI subsetI)
    fix k assume "k \<in> r_issue_id ` set (tree (fetch_issued d p))"
    then obtain r s b where "(r, s, b) \<in> set (select_issued d)" and "k = issue_id r"
      unfolding ids by auto
    then show "k \<in> issue_id ` {r \<in> set (issued_books d).
        ib_student_id r \<noteq> None \<and> ib_book_id r \<noteq> None}"
      by (auto simp: set_select_issued)
  next
    fix k assume "k \<in> issue_id ` {r \<in> set (issued_books d).
        ib_student_id r \<noteq> None \<and> ib_book_id r \<noteq> None}"
    then obtain r sid bid where r: "r \<in> set (issued_books d)" and k: "k = issue_id r"
      and sk: "ib_student_id r = Some sid" and bk: "ib_book_id r = Some bid"
      by auto
    from assms r have "fk_ok (map student_id (students d)) (ib_student_id r)"
      and "fk_ok (map book_id (books d)) (ib_book_id r)"
      by (simp_all add: schema_ok_def list_all_iff)
    with sk bk obtain s b where "s \<in> set (students d)" "student_id s = sid"
      and "b \<in> set (books d)" "book_id b = bid"
      by (auto simp: fk_ok_def)
    with r sk bk have "(r, s, b) \<in> set (select_issued d)"
      by (simp add: set_select_issued)
    then have "issue_id (fst (r, s, b)) \<in> (\<lambda>t. issue_id (fst t)) ` set (select_issued d)"
      by (rule imageI)
    with k show "k \<in> r_issue_id ` set (tree (fetch_issued d p))"
      unfolding ids by simp
  qed
qed

lemma demo_issue_twice_notice:
  "fst (issue_book demo_today demo_page_issued demo_db_issued) =
     ShowInfo ''Success'' ''Book issued.''"
  by (simp add: issue_book_def demo_page_issued_value demo_db_issued_value dict_get_def
      insert_issued_def fk_ok_def int_fits_def Let_def)

lemma demo_issue_twice:
  "issue_book demo_today demo_page_issued demo_db_issued =
     (ShowInfo ''Success'' ''Book issued.'', demo_db_twice, demo_page_twice)"
  unfolding demo_db_twice_def demo_page_twice_def
  using demo_issue_twice_notice by (metis prod.collapse)

lemma demo_db_twice_value:
  "demo_db_twice = \<lparr>students =
       [\<lparr>student_id = 1, name = ''Asha Rao'', age = Some 20, course = Some ''CS'',
         year = Some 2\<rparr>],
     books =
       [\<lparr>book_id = 1, title = ''Compilers'', author = Some ''Aho'', pub_year = Some 2006,
         status = Issued\<rparr>],
     issued_books =
       [\<lparr>issue_id = 1, ib_student_id = Some 1, ib_book_id = Some 1,
         issue_date = Some \<lparr>d_year = 2024, d_month = 3, d_day = 7\<rparr>, return_date = None\<rparr>,
        \<lparr>issue_id = 2, ib_student_id = Some 1, ib_book_id = None,
         issue_date = Some \<lparr>d_year = 2024, d_month = 3, d_day = 7\<rparr>, return_date = None\<rparr>],
     next_student_id = 2, next_book_id = 2, next_issue_id = 3\<rparr>"
  by (simp add: demo_db_twice_def issue_book_def demo_page_issued_value demo_db_issued_value
      dict_get_def insert_issued_def fk_ok_def int_fits_def Let_def update_book_status_def
      demo_today_def)

lemma demo_twice_listing:
  "map r_issue_id (tree (fetch_issued demo_db_twice demo_page_twice)) = [1]"
  by (simp add: fetch_issued_def select_issued_def demo_db_twice_value issued_cells_def)

theorem fetch_issued_listing_witness:
  "schema_ok demo_db_twice \<and>
   sorted_wrt (\<lambda>v w. r_issue_id w < r_issue_id v)
     (tree (fetch_issued demo_db_twice demo_page_twice)) \<and>
   r_issue_id ` set (tree (fetch_issued demo_db_twice demo_page_twice)) =
     issue_id ` {r \<in> set (issued_books demo_db_twice).
                  ib_student_id r \<noteq> None \<and> ib_book_id r \<noteq> None} \<and>
   r_issue_id ` set (tree (fetch_issued demo_db_twice demo_page_twice)) = {1}"
proof -
  have h: "schema_ok demo_db_twice"
    by (simp add: schema_ok_def demo_db_twice_value fk_ok_def)
  have "r_issue_id ` set (tree (fetch_issued demo_db_twice demo_page_twice)) =
      set (map r_issue_id (tree (fetch_issued demo_db_twice demo_page_twice)))"
    by simp
  then have v: "r_issue_id ` set (tree (fetch_issued demo_db_twice demo_page_twice)) = {1}"
    by (simp only: demo_twice_listing) simp
  from fetch_issued_listing [OF h, of demo_page_twice] h v show ?thesis
    by blast
qed

text \<open>
  Claim C6 as the specification words it fails. In the scenario the issue button is
  pressed a second time: the book picker still shows its line, which is no longer a key
  of the refreshed dictionary, so a second record is stored with a null book key. The
  store then holds the issue records 1 and 2, and the listing shows issue 1 alone.
\<close>

theorem listing_omits_record:
  "issue_book demo_today demo_page_issued demo_db_issued =
     (ShowInfo ''Success'' ''Book issued.'', demo_db_twice, demo_page_twice) \<and>
   map issue_id (issued_books demo_db_twice) = [1, 2] \<and>
   map ib_book_id (issued_books demo_db_twice) = [Some 1, None] \<and>
   map r_issue_id (tree (fetch_issued demo_db_twice demo_page_twice)) = [1] \<and>
   \<not> spec_lists_all demo_db_twice (tree (fetch_issued demo_db_twice demo_page_twice))"
proof -
  have a: "map issue_id (issued_books demo_db_twice) = [1, 2]"
    and b: "map ib_book_id (issued_books demo_db_twice) = [Some 1, None]"
    by (simp_all add: demo_db_twice_value)
  have "rev (sort (map issue_id (issued_books demo_db_twice))) = [2, 1]"
    by (simp add: a)
  with demo_twice_listing
  have c: "\<not> spec_lists_all demo_db_twice (tree (fetch_issued demo_db_twice demo_page_twice))"
    by (simp add: spec_lists_all_def)
  from demo_issue_twice a b demo_twice_listing c show ?thesis by (intro conjI)
qed

subsection \<open>Searching students and books\<close>

text \<open>Under the folding of the ASCII letters, to contain is to contain the lower-case
  form in the lower-case form.\<close>

lemma prefix_under_ascii:
  "prefix_under ascii_ci q s = (\<exists>post. map lower s = map lower q @ post)"
  by (induction ascii_ci q s rule: prefix_under.induct) (auto simp: ascii_ci_def)

lemma contains_under_ascii:
  "contains_under ascii_ci q s = (\<exists>pre post. map lower s = pre @ map lower q @ post)"
proof (induction s)
  case Nil
  then show ?case by auto
next
  case (Cons c cs)
  show ?case
  proof
    assume "contains_under ascii_ci q (c # cs)"
    then consider "prefix_under ascii_ci q (c # cs)" | "contains_under ascii_ci q cs" by auto
    then show "\<exists>pre post. map lower (c # cs) = pre @ map lower q @ post"
    proof cases
      case 1
      then obtain post where "map lower (c # cs) = [] @ map lower q @ post"
        by (auto simp: prefix_under_ascii)
      then show ?thesis by blast
    next
      case 2
      with Cons obtain pre post where "map lower cs = pre @ map lower q @ post"
        by auto
      then have "map lower (c # cs) = (lower c # pre) @ map lower q @ post"
        by simp
      then show ?thesis by blast
    qed
  next
    assume "\<exists>pre post. map lower (c # cs) = pre @ map lower q @ post"
    then obtain pr post where eq: "map lower (c # cs) = pr @ map lower q @ post"
      by blast
    show "contains_under ascii_ci q (c # cs)"
    proof (cases pr)
      case Nil
      with eq have "prefix_under ascii_ci q (c # cs)"
        by (auto simp: prefix_under_ascii)
      then show ?thesis by simp
    next
      case (Cons x xs)
      with eq have "map lower cs = xs @ map lower q @ post" by simp
      with Cons.IH have "contains_under ascii_ci q cs" by blast
      then show ?thesis by simp
    qed
  qed
qed

lemma contains_under_Nil: "contains_under coll [] s"
  by (induction s) simp_all

lemma like_percent: "like coll ''%'' s"
  by (induction s) simp_all

lemma like_plain_prefix:
  "plain q \<Longrightarrow> like coll (q @ ''%'') s = prefix_under coll q s"
proof (induction coll q s rule: prefix_under.induct)
  case (1 coll s)
  then show ?case by (simp add: like_percent)
next
  case (2 coll q qs)
  then show ?case by (simp add: plain_def)
next
  case (3 coll q qs c cs)
  then show ?case by (simp add: plain_def)
qed

lemma like_plain_contains:
  assumes "plain q"
  shows "like coll (CHR ''%'' # q @ ''%'') s = contains_under coll q s"
proof (induction s)
  case Nil
  have "like coll (q @ ''%'') [] = prefix_under coll q []"
    using assms by (rule like_plain_prefix)
  then show ?case by (cases q) simp_all
next
  case (Cons c cs)
  have "like coll (q @ ''%'') (c # cs) = prefix_under coll q (c # cs)"
    using assms by (rule like_plain_prefix)
  with Cons show ?case by simp
qed

lemma column_like_plain:
  "plain q \<Longrightarrow> column_like coll v (CHR ''%'' # q @ ''%'') = column_contains coll q v"
  by (simp add: column_like_def column_contains_def like_plain_contains split: option.splits)

text \<open>
  Claim C4, as the code has it. The query is the search field without the white space
  at its ends. When it is plain, the search returns, in the order of the table, exactly
  the rows whose name or course (title or author) contains it as a substring, the
  characters compared as the collation of the store does, so without regard to case
  under the case-insensitive default; a null column contains nothing. In particular
  the search returns every row when the query is empty.
\<close>

theorem search_plain:
  assumes "plain (strip search_var)"
  shows "search_students coll search_var d = spec_search_students coll (strip search_var) d \<and>
         search_books coll search_var d = spec_search_books coll (strip search_var) d \<and>
         (strip search_var = [] \<longrightarrow>
            search_students coll search_var d = students d \<and>
            search_books coll search_var d = books d)"
proof -
  let ?q = "strip search_var"
  have all_s: "spec_search_students coll [] d = students d"
    by (simp add: spec_search_students_def contains_under_Nil)
  have all_b: "spec_search_books coll [] d = books d"
    by (simp add: spec_search_books_def contains_under_Nil)
  have s: "search_students coll search_var d = spec_search_students coll ?q d"
  proof (cases "?q = []")
    case True
    with all_s show ?thesis by (simp add: search_students_def fetch_students_def)
  next
    case False
    then show ?thesis
      using assms
      by (simp add: search_students_def spec_search_students_def Let_def
          like_plain_contains column_like_plain)
  qed
  have b: "search_books coll search_var d = spec_search_books coll ?q d"
  proof (cases "?q = []")
    case True
    with all_b show ?thesis by (simp add: search_books_def fetch_books_def)
  next
    case False
    then show ?thesis
      using assms
      by (simp add: search_books_def spec_search_books_def Let_def
          like_plain_contains column_like_plain)
  qed
  from s b all_s all_b show ?thesis by simp
qed

theorem search_plain_witness:
  "plain (strip demo_query) \<and>
   strip demo_query = ''aho'' \<and>
   search_students ascii_ci demo_query demo_db =
     spec_search_students ascii_ci ''aho'' demo_db \<and>
   search_books ascii_ci demo_query demo_db =
     spec_search_books ascii_ci ''aho'' demo_db \<and>
   map book_id (search_books ascii_ci demo_query demo_db) = [1] \<and>
   search_students ascii_ci demo_query demo_db = []"
proof -
  have st: "strip demo_query = ''aho''" by code_simp
  have h: "plain (strip demo_query)" by code_simp
  have v: "map book_id (spec_search_books ascii_ci ''aho'' demo_db) = [1]"
    "spec_search_students ascii_ci ''aho'' demo_db = []"
    unfolding demo_db_value by code_simp+
  from search_plain [OF h, of ascii_ci demo_db] h v show ?thesis
    by (simp add: st)
qed

text \<open>
  Claim C4 as the specification words it fails. The query \<open>_\<close> is contained in
  neither the name nor the course of the student of the scenario, and the search
  returns that student's row: \<open>_\<close> is the wildcard of \<open>LIKE\<close> for one character.
\<close>

theorem search_wildcard:
  "map student_id (search_students ascii_ci ''_'' demo_db) = [1] \<and>
   spec_search_students ascii_ci ''_'' demo_db = [] \<and>
   search_students ascii_ci ''_'' demo_db \<noteq> spec_search_students ascii_ci ''_'' demo_db"
proof -
  have a: "map student_id (search_students ascii_ci ''_'' demo_db) = [1]"
    unfolding demo_db_value by code_simp
  have b: "spec_search_students ascii_ci ''_'' demo_db = []"
    unfolding demo_db_value by code_simp
  from a b have "search_students ascii_ci ''_'' demo_db \<noteq> spec_search_students ascii_ci ''_'' demo_db"
    by auto
  with a b show ?thesis by simp
qed

subsection \<open>The soft invariant of the workflow\<close>

lemma workflow_inv_iff:
  "workflow_inv d =
     ((\<forall>r \<in> set (issued_books d). \<forall>k. ib_book_id r = Some k \<longrightarrow> k \<in> book_id ` set (books d)) \<and>
      (\<forall>b \<in> set (books d). book_id b < next_book_id d) \<and>
      (\<forall>b \<in> set (books d). status b = Available \<longrightarrow> open_issues d (book_id b) = []) \<and>
      (\<forall>b \<in> set (books d). length (open_issues d (book_id b)) \<le> 1))"
proof -
  have fk: "\<And>r. fk_ok (map book_id (books d)) (ib_book_id r) =
      (\<forall>k. ib_book_id r = Some k \<longrightarrow> k \<in> book_id ` set (books d))"
    by (simp add: fk_ok_def split: option.splits)
  show ?thesis
    unfolding workflow_inv_def one_open_issue_def list_all_iff fk by (rule refl)
qed

lemma workflow_invI:
  assumes "\<And>r k. r \<in> set (issued_books d) \<Longrightarrow> ib_book_id r = Some k \<Longrightarrow>
      k \<in> book_id ` set (books d)"
    and "\<And>b. b \<in> set (books d) \<Longrightarrow> book_id b < next_book_id d"
    and "\<And>b. b \<in> set (books d) \<Longrightarrow> status b = Available \<Longrightarrow> open_issues d (book_id b) = []"
    and "\<And>b. b \<in> set (books d) \<Longrightarrow> length (open_issues d (book_id b)) \<le> 1"
  shows "workflow_inv d"
  unfolding workflow_inv_iff using assms by blast

lemma workflow_inv_fk:
  "workflow_inv d \<Longrightarrow> r \<in> set (issued_books d) \<Longrightarrow> ib_book_id r = Some k \<Longrightarrow>
   k \<in> book_id ` set (books d)"
  unfolding workflow_inv_iff by blast

lemma workflow_inv_below:
  "workflow_inv d \<Longrightarrow> b \<in> set (books d) \<Longrightarrow> book_id b < next_book_id d"
  unfolding workflow_inv_iff by blast

lemma workflow_inv_available:
  "workflow_inv d \<Longrightarrow> b \<in> set (books d) \<Longrightarrow> status b = Available \<Longrightarrow>
   open_issues d (book_id b) = []"
  unfolding workflow_inv_iff by blast

lemma workflow_inv_one:
  "workflow_inv d \<Longrightarrow> b \<in> set (books d) \<Longrightarrow> length (open_issues d (book_id b)) \<le> 1"
  unfolding workflow_inv_iff by blast

lemma workflow_inv_init: "workflow_inv init_db"
  by (simp add: workflow_inv_def one_open_issue_def init_db_def)

text \<open>Statements that touch neither the books nor the issue records.\<close>

lemma workflow_inv_same_tables:
  assumes "workflow_inv d" and "books d' = books d" and "issued_books d' = issued_books d"
    and "next_book_id d' = next_book_id d"
  shows "workflow_inv d'"
proof -
  have "\<And>k. open_issues d' k = open_issues d k"
    by (simp add: open_issues_def assms(3))
  with assms show ?thesis
    by (simp add: workflow_inv_def one_open_issue_def)
qed

lemma workflow_inv_insert_student:
  assumes "workflow_inv d" and "insert_student nm ag co yr d = Inr d'"
  shows "workflow_inv d'"
proof -
  from assms(2) have "books d' = books d" "issued_books d' = issued_books d"
    "next_book_id d' = next_book_id d"
    by (auto simp: insert_student_def split: if_splits)
  with assms(1) show ?thesis by (rule workflow_inv_same_tables)
qed

lemma workflow_inv_update_student:
  assumes "workflow_inv d" and "update_student_row nm ag co yr sid d = Inr d'"
  shows "workflow_inv d'"
proof -
  from assms(2) have "books d' = books d" "issued_books d' = issued_books d"
    "next_book_id d' = next_book_id d"
    by (auto simp: update_student_row_def split: if_splits)
  with assms(1) show ?thesis by (rule workflow_inv_same_tables)
qed

text \<open>Statements that remove issue records, and perhaps books with all their records.\<close>

lemma workflow_inv_shrink:
  assumes "workflow_inv d"
    and "books d' = filter Q (books d)"
    and "issued_books d' = filter P (issued_books d)"
    and "next_book_id d' = next_book_id d"
    and "\<And>r k. r \<in> set (issued_books d) \<Longrightarrow> P r \<Longrightarrow> ib_book_id r = Some k \<Longrightarrow>
           k \<in> book_id ` set (filter Q (books d))"
  shows "workflow_inv d'"
proof (rule workflow_invI)
  have op: "\<And>k. open_issues d' k = filter P (open_issues d k)"
    by (simp add: open_issues_def assms(3) conj_commute)
  {
    fix r k assume "r \<in> set (issued_books d')" "ib_book_id r = Some k"
    then show "k \<in> book_id ` set (books d')"
      using assms(5) [of r k] by (simp add: assms(2,3))
  next
    fix b assume "b \<in> set (books d')"
    then show "book_id b < next_book_id d'"
      using workflow_inv_below [OF assms(1), of b] by (simp add: assms(2,4))
  next
    fix b assume "b \<in> set (books d')" "status b = Available"
    then show "open_issues d' (book_id b) = []"
      using workflow_inv_available [OF assms(1), of b] by (simp add: assms(2) op)
  next
    fix b assume "b \<in> set (books d')"
    then have "length (open_issues d (book_id b)) \<le> 1"
      using workflow_inv_one [OF assms(1), of b] by (simp add: assms(2))
    moreover have "length (filter P (open_issues d (book_id b))) \<le> length (open_issues d (book_id b))"
      by (rule length_filter_le)
    ultimately have "length (filter P (open_issues d (book_id b))) \<le> 1"
      by (rule order_trans [rotated])
    then show "length (open_issues d' (book_id b)) \<le> 1"
      by (simp only: op)
  }
qed

lemma workflow_inv_delete_student:
  assumes "workflow_inv d"
  shows "workflow_inv (delete_student_row sid d)"
proof (rule workflow_inv_shrink [OF assms, where Q = "\<lambda>b. True"
      and P = "\<lambda>r. ib_student_id r \<noteq> Some sid"])
  show "books (delete_student_row sid d) = filter (\<lambda>b. True) (books d)"
    by (simp add: delete_student_row_def)
  show "issued_books (delete_student_row sid d) =
      filter (\<lambda>r. ib_student_id r \<noteq> Some sid) (issued_books d)"
    by (simp add: delete_student_row_def)
  show "next_book_id (delete_student_row sid d) = next_book_id d"
    by (simp add: delete_student_row_def)
  fix r k assume "r \<in> set (issued_books d)" "ib_book_id r = Some k"
  then show "k \<in> book_id ` set (filter (\<lambda>b. True) (books d))"
    using workflow_inv_fk [OF assms] by simp
qed

lemma workflow_inv_delete_book:
  assumes "workflow_inv d"
  shows "workflow_inv (delete_book_row bid d)"
proof (rule workflow_inv_shrink [OF assms, where Q = "\<lambda>b. book_id b \<noteq> bid"
      and P = "\<lambda>r. ib_book_id r \<noteq> Some bid"])
  show "books (delete_book_row bid d) = filter (\<lambda>b. book_id b \<noteq> bid) (books d)"
    by (simp add: delete_book_row_def)
  show "issued_books (delete_book_row bid d) =
      filter (\<lambda>r. ib_book_id r \<noteq> Some bid) (issued_books d)"
    by (simp add: delete_book_row_def)
  show "next_book_id (delete_book_row bid d) = next_book_id d"
    by (simp add: delete_book_row_def)
  fix r k assume r: "r \<in> set (issued_books d)" and ne: "ib_book_id r \<noteq> Some bid"
    and k: "ib_book_id r = Some k"
  from workflow_inv_fk [OF assms r k] obtain b where "b \<in> set (books d)" "book_id b = k"
    by auto
  moreover from ne k have "k \<noteq> bid" by simp
  ultimately show "k \<in> book_id ` set (filter (\<lambda>b. book_id b \<noteq> bid) (books d))"
    by force
qed

text \<open>Statements that change books but neither their keys nor a status to \<open>Available\<close>.\<close>

lemma workflow_inv_books_changed:
  assumes "workflow_inv d"
    and "issued_books d' = issued_books d" and "next_book_id d' = next_book_id d"
    and "\<And>x. x \<in> set (books d') \<Longrightarrow>
           \<exists>b \<in> set (books d). book_id b = book_id x \<and> (status x = Available \<longrightarrow> status b = Available)"
    and "book_id ` set (books d) \<subseteq> book_id ` set (books d')"
  shows "workflow_inv d'"
proof (rule workflow_invI)
  have op: "\<And>k. open_issues d' k = open_issues d k"
    by (simp add: open_issues_def assms(2))
  {
    fix r k assume "r \<in> set (issued_books d')" "ib_book_id r = Some k"
    then have "k \<in> book_id ` set (books d)"
      using workflow_inv_fk [OF assms(1), of r k] by (simp add: assms(2))
    with assms(5) show "k \<in> book_id ` set (books d')" by blast
  next
    fix x assume "x \<in> set (books d')"
    with assms(4) obtain b where "b \<in> set (books d)" "book_id b = book_id x" by blast
    with workflow_inv_below [OF assms(1), of b] show "book_id x < next_book_id d'"
      by (simp add: assms(3))
  next
    fix x assume "x \<in> set (books d')" "status x = Available"
    with assms(4) obtain b where "b \<in> set (books d)" "book_id b = book_id x"
      "status b = Available" by blast
    with workflow_inv_available [OF assms(1), of b] show "open_issues d' (book_id x) = []"
      by (simp add: op)
  next
    fix x assume "x \<in> set (books d')"
    with assms(4) obtain b where "b \<in> set (books d)" "book_id b = book_id x" by blast
    with workflow_inv_one [OF assms(1), of b] show "length (open_issues d' (book_id x)) \<le> 1"
      by (simp add: op)
  }
qed

lemma workflow_inv_update_book:
  assumes "workflow_inv d" and "update_book_row ti au py bid d = Inr d'"
  shows "workflow_inv d'"
proof (rule workflow_inv_books_changed [OF assms(1)])
  let ?f = "\<lambda>b. if book_id b = bid then b\<lparr>title := ti, author := Some au, pub_year := py\<rparr> else b"
  from assms(2) have bk: "books d' = map ?f (books d)"
    and ib: "issued_books d' = issued_books d" and nx: "next_book_id d' = next_book_id d"
    by (auto simp: update_book_row_def split: if_splits)
  have keep: "\<And>b. book_id (?f b) = book_id b \<and> status (?f b) = status b"
    by simp
  show "issued_books d' = issued_books d" by (rule ib)
  show "next_book_id d' = next_book_id d" by (rule nx)
  show "\<exists>b \<in> set (books d). book_id b = book_id x \<and>
      (status x = Available \<longrightarrow> status b = Available)" if "x \<in> set (books d')" for x
  proof -
    from that obtain b where "b \<in> set (books d)" "x = ?f b"
      unfolding bk by auto
    with keep [of b] show ?thesis by metis
  qed
  show "book_id ` set (books d) \<subseteq> book_id ` set (books d')"
  proof
    fix k assume "k \<in> book_id ` set (books d)"
    then obtain b where "b \<in> set (books d)" "k = book_id b" by blast
    with keep [of b] have "?f b \<in> set (books d')" "k = book_id (?f b)"
      unfolding bk by simp_all
    then show "k \<in> book_id ` set (books d')" by blast
  qed
qed

lemma workflow_inv_insert_book:
  assumes "workflow_inv d" and "insert_book ti au py d = Inr d'"
  shows "workflow_inv d'"
proof (rule workflow_invI)
  let ?new = "\<lparr>book_id = next_book_id d, title = ti, author = Some au, pub_year = py,
               status = Available\<rparr>"
  from assms(2) have bk: "books d' = books d @ [?new]"
    and ib: "issued_books d' = issued_books d" and nx: "next_book_id d' = next_book_id d + 1"
    by (auto simp: insert_book_def split: if_splits)
  have op: "\<And>k. open_issues d' k = open_issues d k"
    by (simp add: open_issues_def ib)
  have fresh: "open_issues d (next_book_id d) = []"
  proof -
    have "\<not> (ib_book_id r = Some (next_book_id d) \<and> return_date r = None)"
      if "r \<in> set (issued_books d)" for r
    proof
      assume "ib_book_id r = Some (next_book_id d) \<and> return_date r = None"
      with workflow_inv_fk [OF assms(1) that] obtain b where "b \<in> set (books d)"
        "book_id b = next_book_id d" by auto
      with workflow_inv_below [OF assms(1), of b] show False by simp
    qed
    then show ?thesis by (simp add: open_issues_def filter_empty_conv)
  qed
  {
    fix r k assume "r \<in> set (issued_books d')" "ib_book_id r = Some k"
    then have "k \<in> book_id ` set (books d)"
      using workflow_inv_fk [OF assms(1), of r k] by (simp add: ib)
    then show "k \<in> book_id ` set (books d')" by (auto simp: bk)
  next
    fix b assume "b \<in> set (books d')"
    then consider "b \<in> set (books d)" | "b = ?new" by (auto simp: bk)
    then show "book_id b < next_book_id d'"
    proof cases
      case 1
      with workflow_inv_below [OF assms(1), of b] show ?thesis by (simp add: nx)
    next
      case 2
      then show ?thesis by (simp add: nx)
    qed
  next
    fix b assume b: "b \<in> set (books d')" and a: "status b = Available"
    from b consider "b \<in> set (books d)" | "b = ?new" by (auto simp: bk)
    then show "open_issues d' (book_id b) = []"
    proof cases
      case 1
      with a workflow_inv_available [OF assms(1), of b] show ?thesis by (simp add: op)
    next
      case 2
      with fresh show ?thesis by (simp add: op)
    qed
  next
    fix b assume "b \<in> set (books d')"
    then consider "b \<in> set (books d)" | "b = ?new" by (auto simp: bk)
    then show "length (open_issues d' (book_id b)) \<le> 1"
    proof cases
      case 1
      with workflow_inv_one [OF assms(1), of b] show ?thesis by (simp add: op)
    next
      case 2
      with fresh show ?thesis by (simp add: op)
    qed
  }
qed

text \<open>The two statements of \<open>issue_book\<close>, on a book of the picker or on none.\<close>

lemma books_update_status:
  assumes "x \<in> set (books (update_book_status st bid d))"
  shows "\<exists>b \<in> set (books d). book_id x = book_id b \<and>
           (if Some (book_id b) = bid then status x = st else x = b)"
proof -
  from assms obtain b where "b \<in> set (books d)"
    and "x = (if Some (book_id b) = bid then b\<lparr>status := st\<rparr> else b)"
    unfolding update_book_status_def by auto
  then show ?thesis
    by (cases "Some (book_id b) = bid") auto
qed

lemma book_ids_update_status:
  "book_id ` set (books (update_book_status st bid d)) = book_id ` set (books d)"
proof -
  have "map book_id (books (update_book_status st bid d)) = map book_id (books d)"
    by (simp add: update_book_status_def map_book_id_status)
  then have "set (map book_id (books (update_book_status st bid d))) = set (map book_id (books d))"
    by simp
  then show ?thesis by (simp only: set_map)
qed

lemma workflow_inv_issue:
  assumes "workflow_inv d" and "insert_issued sid bid today d = Inr d1"
    and "\<And>k. bid = Some k \<Longrightarrow> \<exists>b \<in> set (books d). book_id b = k \<and> status b = Available"
  shows "workflow_inv (update_book_status Issued bid d1)"
proof (rule workflow_invI)
  let ?d' = "update_book_status Issued bid d1"
  let ?new = "\<lparr>issue_id = next_issue_id d, ib_student_id = sid, ib_book_id = bid,
               issue_date = Some today, return_date = None\<rparr>"
  note d1 = insert_issued_Inr [OF assms(2)]
  have ib: "issued_books ?d' = issued_books d @ [?new]"
    by (simp add: d1 update_book_status_def)
  have nx: "next_book_id ?d' = next_book_id d"
    by (simp add: d1 update_book_status_def)
  have bd: "books d1 = books d"
    by (simp add: d1)
  have ids: "book_id ` set (books ?d') = book_id ` set (books d)"
    by (simp only: book_ids_update_status bd)
  have op: "\<And>k. open_issues ?d' k = open_issues d k @ (if bid = Some k then [?new] else [])"
    by (simp add: open_issues_def ib)
  have old: "\<exists>b \<in> set (books d). book_id x = book_id b \<and>
      (if Some (book_id b) = bid then status x = Issued else x = b)" if "x \<in> set (books ?d')" for x
    using books_update_status [OF that] by (simp only: bd)
  {
    fix r k assume r: "r \<in> set (issued_books ?d')" and k: "ib_book_id r = Some k"
    from r consider "r \<in> set (issued_books d)" | "r = ?new" by (auto simp: ib)
    then have "k \<in> book_id ` set (books d)"
    proof cases
      case 1
      from workflow_inv_fk [OF assms(1) 1 k] show ?thesis .
    next
      case 2
      with k have "bid = Some k" by simp
      from assms(3) [OF this] show ?thesis by force
    qed
    then show "k \<in> book_id ` set (books ?d')" by (simp only: ids)
  next
    fix x assume "x \<in> set (books ?d')"
    from old [OF this] obtain b where "b \<in> set (books d)" "book_id x = book_id b" by blast
    with workflow_inv_below [OF assms(1), of b] show "book_id x < next_book_id ?d'"
      by (simp add: nx)
  next
    fix x assume x: "x \<in> set (books ?d')" and a: "status x = Available"
    from old [OF x] obtain b where b: "b \<in> set (books d)" and k: "book_id x = book_id b"
      and c: "if Some (book_id b) = bid then status x = Issued else x = b" by blast
    from c a have ne: "Some (book_id b) \<noteq> bid" and "x = b"
      by (auto split: if_splits)
    with a b workflow_inv_available [OF assms(1), of b] have "open_issues d (book_id b) = []"
      by simp
    with ne k show "open_issues ?d' (book_id x) = []"
      by (auto simp: op)
  next
    fix x assume x: "x \<in> set (books ?d')"
    from old [OF x] obtain b where b: "b \<in> set (books d)" and k: "book_id x = book_id b"
      by blast
    show "length (open_issues ?d' (book_id x)) \<le> 1"
    proof (cases "bid = Some (book_id b)")
      case True
      from assms(3) [OF True] obtain b0 where "b0 \<in> set (books d)" "book_id b0 = book_id b"
        "status b0 = Available" by blast
      with workflow_inv_available [OF assms(1), of b0] have "open_issues d (book_id b) = []"
        by simp
      moreover from op [of "book_id b"] True
      have "open_issues ?d' (book_id b) = open_issues d (book_id b) @ [?new]"
        by simp
      ultimately have "length (open_issues ?d' (book_id b)) = 1" by simp
      with k show ?thesis by simp
    next
      case False
      with workflow_inv_one [OF assms(1) b] k show ?thesis by (simp add: op)
    qed
  }
qed

text \<open>The two statements of \<open>return_book\<close>, on an open record and its book.\<close>

lemma filter_open_closed:
  "filter (\<lambda>r. ib_book_id r = Some k \<and> return_date r = None)
     (map (\<lambda>r. if issue_id r = i then r\<lparr>return_date := Some t\<rparr> else r) rs) =
   filter (\<lambda>r. issue_id r \<noteq> i) (filter (\<lambda>r. ib_book_id r = Some k \<and> return_date r = None) rs)"
  by (induction rs) simp_all

lemma open_issues_closed:
  "open_issues (update_book_status st bid (update_return_date t i d)) k =
     filter (\<lambda>r. issue_id r \<noteq> i) (open_issues d k)"
  by (simp add: open_issues_def update_book_status_def update_return_date_def filter_open_closed)

lemma fk_after_close:
  assumes "x \<in> set (issued_books (update_book_status st bid (update_return_date t i d)))"
  shows "\<exists>r \<in> set (issued_books d). ib_book_id x = ib_book_id r"
proof -
  from assms obtain r where "r \<in> set (issued_books d)"
    and "x = (if issue_id r = i then r\<lparr>return_date := Some t\<rparr> else r)"
    unfolding update_book_status_def update_return_date_def by auto
  then show ?thesis by (cases "issue_id r = i") auto
qed

lemma workflow_inv_return:
  assumes "workflow_inv d" and "r \<in> set (issued_books d)" and "return_date r = None"
    and "ib_book_id r = Some k"
  shows "workflow_inv (update_book_status Available (Some k) (update_return_date today (issue_id r) d))"
proof (rule workflow_invI)
  let ?d1 = "update_return_date today (issue_id r) d"
  let ?d' = "update_book_status Available (Some k) ?d1"
  have nx: "next_book_id ?d' = next_book_id d"
    by (simp add: update_book_status_def update_return_date_def)
  have bd: "books ?d1 = books d"
    by (simp add: update_return_date_def)
  have ids: "book_id ` set (books ?d') = book_id ` set (books d)"
    by (simp only: book_ids_update_status bd)
  note op = open_issues_closed [of Available "Some k" today "issue_id r" d]
  have old: "\<exists>b \<in> set (books d). book_id x = book_id b \<and>
      (if Some (book_id b) = Some k then status x = Available else x = b)"
    if "x \<in> set (books ?d')" for x
    using books_update_status [OF that] by (simp only: bd)
  have r_open: "r \<in> set (open_issues d k)"
    using assms(2-4) by (simp add: open_issues_def)
  have none_left: "filter (\<lambda>x. issue_id x \<noteq> issue_id r) (open_issues d k) = []"
    if "b \<in> set (books d)" "book_id b = k" for b
  proof -
    from workflow_inv_one [OF assms(1) that(1)] that(2)
    have "length (open_issues d k) \<le> 1" by simp
    with r_open have "open_issues d k = [r]"
      by (cases "open_issues d k") auto
    then show ?thesis by simp
  qed
  {
    fix x j assume "x \<in> set (issued_books ?d')" "ib_book_id x = Some j"
    with fk_after_close [of x Available "Some k" today "issue_id r" d]
    obtain r0 where r0: "r0 \<in> set (issued_books d)" "ib_book_id r0 = Some j" by auto
    from workflow_inv_fk [OF assms(1) r0] have "j \<in> book_id ` set (books d)" .
    then show "j \<in> book_id ` set (books ?d')" by (simp only: ids)
  next
    fix x assume "x \<in> set (books ?d')"
    from old [OF this] obtain b where "b \<in> set (books d)" "book_id x = book_id b" by blast
    with workflow_inv_below [OF assms(1), of b] show "book_id x < next_book_id ?d'"
      by (simp add: nx)
  next
    fix x assume x: "x \<in> set (books ?d')" and a: "status x = Available"
    from old [OF x] obtain b where b: "b \<in> set (books d)" and kx: "book_id x = book_id b"
      and c: "if Some (book_id b) = Some k then status x = Available else x = b" by blast
    show "open_issues ?d' (book_id x) = []"
    proof (cases "book_id b = k")
      case True
      with none_left [OF b True] kx show ?thesis by (simp add: op)
    next
      case False
      with c have "x = b" by simp
      with a b workflow_inv_available [OF assms(1), of b] have "open_issues d (book_id b) = []"
        by simp
      with kx show ?thesis by (simp add: op)
    qed
  next
    fix x assume x: "x \<in> set (books ?d')"
    from old [OF x] obtain b where b: "b \<in> set (books d)" and kx: "book_id x = book_id b"
      by blast
    have "length (filter (\<lambda>y. issue_id y \<noteq> issue_id r) (open_issues d (book_id b))) \<le>
        length (open_issues d (book_id b))"
      by (rule length_filter_le)
    with workflow_inv_one [OF assms(1) b]
    have "length (filter (\<lambda>y. issue_id y \<noteq> issue_id r) (open_issues d (book_id b))) \<le> 1"
      by linarith
    with kx show "length (open_issues ?d' (book_id x)) \<le> 1"
      by (simp only: op)
  }
qed


text \<open>The handlers, and the steps of the application.\<close>

lemma workflow_inv_add_student:
  "workflow_inv d \<Longrightarrow> workflow_inv (snd (add_student nm ag co yr d))"
  by (auto simp: add_student_def Let_def split: sum.splits intro: workflow_inv_insert_student)

lemma workflow_inv_update_student_handler:
  "workflow_inv d \<Longrightarrow> workflow_inv (snd (update_student sel nm ag co yr d))"
  by (auto simp: update_student_def Let_def split: sum.splits option.splits
      intro: workflow_inv_update_student)

lemma workflow_inv_delete_student_handler:
  "workflow_inv d \<Longrightarrow> workflow_inv (snd (delete_student sel confirm d))"
  by (auto simp: delete_student_def split: option.splits intro: workflow_inv_delete_student)

lemma workflow_inv_add_book:
  "workflow_inv d \<Longrightarrow> workflow_inv (snd (add_book ti au py d))"
  by (auto simp: add_book_def Let_def split: sum.splits intro: workflow_inv_insert_book)

lemma workflow_inv_update_book_handler:
  "workflow_inv d \<Longrightarrow> workflow_inv (snd (update_book sel ti au py d))"
  by (auto simp: update_book_def Let_def split: sum.splits option.splits
      intro: workflow_inv_update_book)

lemma workflow_inv_delete_book_handler:
  "workflow_inv d \<Longrightarrow> workflow_inv (snd (delete_book sel confirm d))"
  by (auto simp: delete_book_def split: option.splits intro: workflow_inv_delete_book)

lemma page_synced_refresh: "page_synced d (refresh_all d p)"
  by (simp add: page_synced_def refresh_all_def fetch_issued_def refresh_comboboxes_def)

lemma picked_book_available:
  assumes "page_synced d p" and "dict_get (book_map p) l = Some k"
  shows "\<exists>b \<in> set (books d). book_id b = k \<and> status b = Available"
proof -
  from assms(2) have "(l, k) \<in> set (rev (book_map p))"
    unfolding dict_get_def by (rule map_of_SomeD)
  then have "k \<in> snd ` set (book_map p)" by force
  with assms(1) have "k \<in> book_id ` set (available_books d)"
    by (simp add: page_synced_def image_image)
  then show ?thesis by (auto simp: available_books_def)
qed

lemma issue_book_inv:
  assumes "workflow_inv d" and "page_synced d p" and "issue_book today p d = (n, d', p')"
  shows "workflow_inv d' \<and> page_synced d' p'"
proof (cases "student_cb p = [] \<or> book_cb p = []")
  case True
  with assms show ?thesis by (simp add: issue_book_def)
next
  case False
  let ?sid = "dict_get (student_map p) (student_cb p)"
  let ?bid = "dict_get (book_map p) (book_cb p)"
  show ?thesis
  proof (cases "insert_issued ?sid ?bid today d")
    case (Inl e)
    with False assms show ?thesis by (simp add: issue_book_def Let_def)
  next
    case (Inr d1)
    with False assms(3) have d': "d' = update_book_status Issued ?bid d1"
      and p': "p' = refresh_all d' p"
      by (auto simp: issue_book_def Let_def)
    have "workflow_inv (update_book_status Issued ?bid d1)"
      using assms(1) Inr picked_book_available [OF assms(2)]
      by (rule workflow_inv_issue)
    with d' p' show ?thesis by (simp add: page_synced_refresh)
  qed
qed

lemma open_row:
  assumes "page_synced d p" and "v \<in> set (tree p)"
    and "\<not> (r_return_date v \<noteq> [] \<and> r_return_date v \<noteq> ''None'')"
  shows "\<exists>r \<in> set (issued_books d). return_date r = None \<and> issue_id r = r_issue_id v \<and>
           ib_book_id r = Some (r_book_id v)"
proof -
  from assms(1,2) obtain r s b where t: "(r, s, b) \<in> set (select_issued d)"
    and v: "v = issued_cells (r, s, b)"
    by (auto simp: page_synced_def)
  from t have r: "r \<in> set (issued_books d)" and k: "ib_book_id r = Some (book_id b)"
    by (simp_all add: set_select_issued)
  have "return_date r = None"
  proof (cases "return_date r")
    case None
    then show ?thesis .
  next
    case (Some t)
    with v have "r_return_date v = isoformat t"
      by (simp add: issued_cells_def date_cell_def)
    with assms(3) isoformat_not_blank [of t] show ?thesis by simp
  qed
  with r k v show ?thesis
    by (auto simp: issued_cells_def)
qed

lemma return_book_inv:
  assumes "workflow_inv d" and "page_synced d p"
    and "case sel of None \<Rightarrow> True | Some v \<Rightarrow> v \<in> set (tree p)"
    and "return_book sel confirm today p d = (n, d', p')"
  shows "workflow_inv d' \<and> page_synced d' p'"
proof (cases sel)
  case None
  with assms show ?thesis by (simp add: return_book_def)
next
  case (Some v)
  with assms(3) have v: "v \<in> set (tree p)" by simp
  show ?thesis
  proof (cases "r_return_date v \<noteq> [] \<and> r_return_date v \<noteq> ''None''")
    case True
    with Some assms show ?thesis by (simp add: return_book_def)
  next
    case open_cell: False
    show ?thesis
    proof (cases confirm)
      case False
      with open_cell Some assms(4) have "d' = d" "p' = p"
        by (auto simp: return_book_def split: if_splits)
      with assms(1,2) show ?thesis by simp
    next
      case True
      with open_cell Some assms(4)
      have d': "d' = update_book_status Available (Some (r_book_id v))
                       (update_return_date today (r_issue_id v) d)"
        and p': "p' = refresh_all d' p"
        by (auto simp: return_book_def Let_def split: if_splits)
      from open_row [OF assms(2) v open_cell] obtain r where r: "r \<in> set (issued_books d)"
        and o: "return_date r = None" and i: "issue_id r = r_issue_id v"
        and k: "ib_book_id r = Some (r_book_id v)" by blast
      from workflow_inv_return [OF assms(1) r o k, of today] i d'
      have "workflow_inv d'" by simp
      with p' show ?thesis by (simp add: page_synced_refresh)
    qed
  qed
qed

text \<open>The first statement of \<open>issue_book\<close> alone, the first of \<open>return_book\<close> alone,
  and the update of a status alone.\<close>

lemma one_open_issue_iff:
  "one_open_issue d = (\<forall>b \<in> set (books d). length (open_issues d (book_id b)) \<le> 1)"
  by (simp add: one_open_issue_def list_all_iff)

lemma workflow_inv_soft: "workflow_inv d \<Longrightarrow> one_open_issue d"
  by (simp add: workflow_inv_def)

lemma one_open_issue_insert:
  assumes "workflow_inv d" and "insert_issued sid bid today d = Inr d1"
    and "\<And>k. bid = Some k \<Longrightarrow> \<exists>b \<in> set (books d). book_id b = k \<and> status b = Available"
  shows "one_open_issue d1"
  unfolding one_open_issue_iff
proof
  let ?new = "\<lparr>issue_id = next_issue_id d, ib_student_id = sid, ib_book_id = bid,
               issue_date = Some today, return_date = None\<rparr>"
  note d1 = insert_issued_Inr [OF assms(2)]
  have op: "open_issues d1 k = open_issues d k @ (if bid = Some k then [?new] else [])" for k
    by (simp add: open_issues_def d1)
  fix x assume "x \<in> set (books d1)"
  then have b: "x \<in> set (books d)" by (simp add: d1)
  show "length (open_issues d1 (book_id x)) \<le> 1"
  proof (cases "bid = Some (book_id x)")
    case True
    from assms(3) [OF True] obtain b0 where "b0 \<in> set (books d)" "book_id b0 = book_id x"
      "status b0 = Available" by blast
    with workflow_inv_available [OF assms(1), of b0] have "open_issues d (book_id x) = []"
      by simp
    with True show ?thesis by (simp add: op)
  next
    case False
    with workflow_inv_one [OF assms(1) b] show ?thesis by (simp add: op)
  qed
qed

lemma one_open_issue_close:
  assumes "one_open_issue d"
  shows "one_open_issue (update_return_date t i d)"
  unfolding one_open_issue_iff
proof
  have op: "open_issues (update_return_date t i d) k =
      filter (\<lambda>r. issue_id r \<noteq> i) (open_issues d k)" for k
    by (simp add: open_issues_def update_return_date_def filter_open_closed)
  fix x assume "x \<in> set (books (update_return_date t i d))"
  then have "x \<in> set (books d)" by (simp add: update_return_date_def)
  with assms have "length (open_issues d (book_id x)) \<le> 1"
    by (simp add: one_open_issue_iff)
  moreover have "length (filter (\<lambda>r. issue_id r \<noteq> i) (open_issues d (book_id x))) \<le>
      length (open_issues d (book_id x))"
    by (rule length_filter_le)
  ultimately show "length (open_issues (update_return_date t i d) (book_id x)) \<le> 1"
    by (simp only: op)
qed

lemma one_open_issue_status:
  assumes "one_open_issue d"
  shows "one_open_issue (update_book_status st bid d)"
  unfolding one_open_issue_iff
proof
  have op: "open_issues (update_book_status st bid d) k = open_issues d k" for k
    by (simp add: open_issues_def update_book_status_def)
  fix x assume "x \<in> set (books (update_book_status st bid d))"
  from books_update_status [OF this] obtain b where "b \<in> set (books d)"
    "book_id x = book_id b" by blast
  with assms show "length (open_issues (update_book_status st bid d) (book_id x)) \<le> 1"
    by (simp add: one_open_issue_iff op)
qed

text \<open>The handlers of the issue page when the store fails. Without a failure they are
  the handlers above.\<close>

lemma refresh_all_run_NoFault: "refresh_all_run NoFault d p = ([], False, refresh_all d p)"
  by (simp add: refresh_all_run_def)

lemma issue_book_run_NoFault:
  "issue_book_run NoFault today p d =
     (case issue_book today p d of (n, d', p') \<Rightarrow> ([n], d', p'))"
  by (simp add: issue_book_run_def issue_book_def refresh_all_run_NoFault Let_def
      split: sum.splits)

lemma return_book_run_NoFault:
  "return_book_run NoFault sel confirm today p d =
     (case return_book sel confirm today p d of
        (n, d', p') \<Rightarrow> ((if n = NoNotice then [] else [n]), d', p'))"
  by (simp add: return_book_run_def return_book_def refresh_all_run_NoFault Let_def
      split: option.splits)

lemma refresh_all_run_cases:
  "\<exists>ns raised p'. refresh_all_run f d p = (ns, raised, p')"
  by (cases "refresh_all_run f d p") auto

lemma issue_book_run_store:
  assumes "issue_book_run f today p d = (ns, d', p')"
  shows "d' = d \<or>
         (\<exists>d1. insert_issued (dict_get (student_map p) (student_cb p))
                  (dict_get (book_map p) (book_cb p)) today d = Inr d1 \<and>
               (d' = d1 \<and> f = AtSecondWrite \<or>
                d' = update_book_status Issued (dict_get (book_map p) (book_cb p)) d1))"
proof (cases "student_cb p = [] \<or> book_cb p = [] \<or> f = AtFirstWrite")
  case True
  with assms show ?thesis by (auto simp: issue_book_run_def Let_def split: if_splits)
next
  case sel: False
  let ?sid = "dict_get (student_map p) (student_cb p)"
  let ?bid = "dict_get (book_map p) (book_cb p)"
  show ?thesis
  proof (cases "insert_issued ?sid ?bid today d")
    case (Inl e)
    with sel assms show ?thesis by (simp add: issue_book_run_def Let_def)
  next
    case (Inr d1)
    show ?thesis
    proof (cases "f = AtSecondWrite")
      case True
      with sel Inr assms show ?thesis by (simp add: issue_book_run_def Let_def)
    next
      case False
      obtain ms raised q where
        "refresh_all_run f (update_book_status Issued ?bid d1) p = (ms, raised, q)"
        using refresh_all_run_cases by blast
      with False sel Inr assms have "d' = update_book_status Issued ?bid d1"
        by (simp add: issue_book_run_def Let_def)
      with Inr show ?thesis by simp
    qed
  qed
qed

lemma return_book_run_store:
  assumes "return_book_run f sel confirm today p d = (ns, d', p')"
  shows "d' = d \<or>
         (\<exists>v. sel = Some v \<and>
               (d' = update_return_date today (r_issue_id v) d \<or>
                d' = update_book_status Available (Some (r_book_id v))
                       (update_return_date today (r_issue_id v) d)))"
proof (cases sel)
  case None
  with assms show ?thesis by (simp add: return_book_run_def)
next
  case (Some v)
  show ?thesis
  proof (cases "(r_return_date v \<noteq> [] \<and> r_return_date v \<noteq> ''None'') \<or> \<not> confirm \<or>
      f = AtFirstWrite \<or> f = AtSecondWrite")
    case True
    with Some assms show ?thesis
      by (auto simp: return_book_run_def Let_def split: if_splits)
  next
    case False
    let ?d2 = "update_book_status Available (Some (r_book_id v))
                 (update_return_date today (r_issue_id v) d)"
    obtain ms raised q where "refresh_all_run f ?d2 p = (ms, raised, q)"
      using refresh_all_run_cases by blast
    with False Some assms have "d' = ?d2"
      by (auto simp: return_book_run_def Let_def split: if_splits)
    with Some show ?thesis by simp
  qed
qed

lemma issue_book_run_soft:
  assumes "workflow_inv d" and "page_synced d p" and "issue_book_run f today p d = (ns, d', p')"
  shows "one_open_issue d'"
proof -
  let ?sid = "dict_get (student_map p) (student_cb p)"
  let ?bid = "dict_get (book_map p) (book_cb p)"
  from issue_book_run_store [OF assms(3)] consider "d' = d"
    | d1 where "insert_issued ?sid ?bid today d = Inr d1" "d' = d1"
    | d1 where "insert_issued ?sid ?bid today d = Inr d1" "d' = update_book_status Issued ?bid d1"
    by blast
  then show ?thesis
  proof cases
    case 1
    with assms(1) show ?thesis by (simp add: workflow_inv_soft)
  next
    case 2
    from assms(1) 2(1) picked_book_available [OF assms(2)] have "one_open_issue d1"
      by (rule one_open_issue_insert)
    with 2(2) show ?thesis by simp
  next
    case 3
    from assms(1) 3(1) picked_book_available [OF assms(2)]
    have "workflow_inv (update_book_status Issued ?bid d1)"
      by (rule workflow_inv_issue)
    with 3(2) show ?thesis by (simp add: workflow_inv_soft)
  qed
qed

lemma return_book_run_soft:
  assumes "one_open_issue d" and "return_book_run f sel confirm today p d = (ns, d', p')"
  shows "one_open_issue d'"
  using return_book_run_store [OF assms(2)] assms(1)
  by (auto intro: one_open_issue_close one_open_issue_status)

text \<open>The steps of the application. A step without a failure of the store keeps all of
  \<open>app_inv\<close>; a step with a failure keeps the soft invariant, but not \<open>app_inv\<close>.\<close>

lemma app_inv_init: "app_inv init_app"
  by (simp add: app_inv_def init_app_def workflow_inv_init)

lemma app_inv_step:
  assumes "app_inv s" and "enabled e s" and "no_fault e"
  shows "app_inv (step e s)"
proof (cases e)
  case Restart
  with assms show ?thesis by (simp add: app_inv_def)
next
  case (ShowFrame f pg)
  with assms show ?thesis
    by (simp add: app_inv_def refresh_all_run_NoFault page_synced_refresh)
next
  case (AddStudent nm ag co yr)
  with assms show ?thesis by (simp add: app_inv_def workflow_inv_add_student)
next
  case (UpdateStudent sel nm ag co yr)
  with assms show ?thesis by (simp add: app_inv_def workflow_inv_update_student_handler)
next
  case (DeleteStudent sel confirm)
  with assms show ?thesis by (simp add: app_inv_def workflow_inv_delete_student_handler)
next
  case (AddBook ti au py)
  with assms show ?thesis by (simp add: app_inv_def workflow_inv_add_book)
next
  case (UpdateBook sel ti au py)
  with assms show ?thesis by (simp add: app_inv_def workflow_inv_update_book_handler)
next
  case (DeleteBook sel confirm)
  with assms show ?thesis by (simp add: app_inv_def workflow_inv_delete_book_handler)
next
  case StoreFailure
  with assms show ?thesis by simp
next
  case (PickStudent l)
  with assms show ?thesis by (simp add: app_inv_def page_synced_def)
next
  case (PickBook l)
  with assms show ?thesis by (simp add: app_inv_def page_synced_def)
next
  case (IssueBook f today)
  obtain n d' p' where run: "issue_book today (ipage s) (store s) = (n, d', p')"
    by (cases "issue_book today (ipage s) (store s)") auto
  from assms IssueBook have "workflow_inv (store s)" "page_synced (store s) (ipage s)"
    by (simp_all add: app_inv_def)
  from issue_book_inv [OF this run] run IssueBook assms(3) show ?thesis
    by (simp add: app_inv_def issue_book_run_NoFault)
next
  case (ReturnBook f sel confirm today)
  obtain n d' p' where run: "return_book sel confirm today (ipage s) (store s) = (n, d', p')"
    by (cases "return_book sel confirm today (ipage s) (store s)") auto
  from assms ReturnBook have "workflow_inv (store s)" "page_synced (store s) (ipage s)"
    "case sel of None \<Rightarrow> True | Some v \<Rightarrow> v \<in> set (tree (ipage s))"
    by (simp_all add: app_inv_def)
  from return_book_inv [OF this run] run ReturnBook assms(3) show ?thesis
    by (simp add: app_inv_def return_book_run_NoFault)
qed

lemma soft_step:
  assumes "app_inv s" and "enabled e s"
  shows "one_open_issue (store (step e s))"
proof (cases "no_fault e")
  case True
  with assms have "app_inv (step e s)" by (rule app_inv_step)
  then show ?thesis by (simp add: app_inv_def workflow_inv_soft)
next
  case False
  from assms(1) have w: "workflow_inv (store s)" by (simp add: app_inv_def)
  then have o: "one_open_issue (store s)" by (rule workflow_inv_soft)
  show ?thesis
  proof (cases e)
    case (ShowFrame f pg)
    with o show ?thesis by simp
  next
    case StoreFailure
    with o show ?thesis by simp
  next
    case (IssueBook f today)
    obtain ns d' p' where run: "issue_book_run f today (ipage s) (store s) = (ns, d', p')"
      by (cases "issue_book_run f today (ipage s) (store s)") auto
    from assms IssueBook have "page_synced (store s) (ipage s)"
      by (simp add: app_inv_def)
    from issue_book_run_soft [OF w this run] run IssueBook show ?thesis by simp
  next
    case (ReturnBook f sel confirm today)
    obtain ns d' p' where
      run: "return_book_run f sel confirm today (ipage s) (store s) = (ns, d', p')"
      by (cases "return_book_run f sel confirm today (ipage s) (store s)") auto
    from return_book_run_soft [OF o run] run ReturnBook show ?thesis by simp
  qed (use False in simp_all)
qed

lemma fault_free_run:
  "app_inv s \<Longrightarrow> run_events es s = Some s' \<Longrightarrow> list_all no_fault es \<Longrightarrow> app_inv s'"
proof (induction es arbitrary: s)
  case Nil
  then show ?case by simp
next
  case (Cons e es)
  from Cons.prems(2) have en: "enabled e s" and run: "run_events es (step e s) = Some s'"
    by (simp_all split: if_splits)
  from Cons.prems(3) have nf: "no_fault e" and rest: "list_all no_fault es"
    by simp_all
  from Cons.prems(1) en nf have "app_inv (step e s)" by (rule app_inv_step)
  from Cons.IH [OF this run rest] show ?case .
qed

lemma reachable_run_events:
  "reachable s \<Longrightarrow> run_events es s = Some s' \<Longrightarrow> reachable s'"
proof (induction es arbitrary: s)
  case Nil
  then show ?case by simp
next
  case (Cons e es)
  from Cons.prems(2) have en: "enabled e s" and run: "run_events es (step e s) = Some s'"
    by (simp_all split: if_splits)
  from Cons.prems(1) en have "reachable (step e s)" by (rule reachable.next_state)
  from Cons.IH [OF this run] show ?case .
qed

lemma demo_app_run: "run_events demo_events init_app = Some demo_app"
  by code_simp

lemma demo_events_no_fault: "list_all no_fault demo_events"
  by (simp add: demo_events_def)

lemma demo_app_reachable: "reachable demo_app"
  using reachable.start demo_app_run by (rule reachable_run_events)

lemma demo_twice_reachable:
  "reachable \<lparr>store = demo_db_twice, current = IssuePage, ipage = demo_page_twice\<rparr>"
proof -
  have e: "enabled (IssueBook NoFault demo_today) demo_app"
    by (simp add: demo_app_def)
  have 1: "step (IssueBook NoFault demo_today) demo_app =
      \<lparr>store = demo_db_issued, current = IssuePage, ipage = demo_page_issued\<rparr>"
    by (simp add: demo_app_def issue_book_run_NoFault demo_issue)
  from demo_app_reachable e have r: "reachable (step (IssueBook NoFault demo_today) demo_app)"
    by (rule reachable.next_state)
  have e2: "enabled (IssueBook NoFault demo_today) (step (IssueBook NoFault demo_today) demo_app)"
    unfolding 1 by simp
  have 2: "step (IssueBook NoFault demo_today) (step (IssueBook NoFault demo_today) demo_app) =
      \<lparr>store = demo_db_twice, current = IssuePage, ipage = demo_page_twice\<rparr>"
    unfolding 1 by (simp add: issue_book_run_NoFault demo_issue_twice)
  from r e2
  have "reachable (step (IssueBook NoFault demo_today) (step (IssueBook NoFault demo_today) demo_app))"
    by (rule reachable.next_state)
  then show ?thesis by (simp only: 2)
qed

text \<open>The store itself does not keep the invariant: the insert statement alone, on the
  book that is already issued, leaves that book with two open records.\<close>

lemma soft_invariant_not_enforced:
  "\<exists>d1. insert_issued (Some 1) (Some 1) demo_today demo_db_issued = Inr d1 \<and>
        \<not> one_open_issue d1"
  by (simp add: insert_issued_def demo_db_issued_value fk_ok_def int_fits_def
      one_open_issue_def open_issues_def)

text \<open>The scenario in which the update of \<open>issue_book\<close> fails: the record is written,
  the book is still \<open>Available\<close>, and the issue page is as it was.\<close>

lemma demo_app_half_value:
  "demo_app_half =
     \<lparr>store = demo_db\<lparr>issued_books :=
                  [\<lparr>issue_id = 1, ib_student_id = Some 1, ib_book_id = Some 1,
                    issue_date = Some demo_today, return_date = None\<rparr>],
                next_issue_id := 2\<rparr>,
      current = IssuePage, ipage = demo_page\<rparr>"
  by (simp add: demo_app_half_def demo_app_def issue_book_run_def demo_page_value
      demo_db_value dict_get_def insert_issued_def fk_ok_def int_fits_def Let_def)

lemma demo_app_half_run:
  "run_events (demo_events @ [IssueBook AtSecondWrite demo_today]) init_app = Some demo_app_half"
proof -
  have "run_events (es @ [e]) s = (case run_events es s of None \<Rightarrow> None
      | Some s' \<Rightarrow> if enabled e s' then Some (step e s') else None)" for es e s
    by (induction es arbitrary: s) simp_all
  then show ?thesis
    by (simp add: demo_app_run demo_app_half_def) (simp add: demo_app_def)
qed

text \<open>
  Claim C3, as the code has it. In every state that the application reaches from its
  start through operations none of which was interrupted by a failure of the store,
  every book has at most one open issue record, and every enabled operation, also one
  that a failure of the store interrupts, leads to a state in which every book has at
  most one open issue record. The proviso of the claim is kept by the program there:
  when \<open>issue_book\<close> finds a key for the text of the book picker, that key is the key
  of a book with status \<open>Available\<close>.
\<close>

theorem soft_invariant_preserved:
  assumes "run_events es init_app = Some s" and "list_all no_fault es" and "enabled e s"
  shows "one_open_issue (store s) \<and> one_open_issue (store (step e s)) \<and>
         (\<forall>f today k. e = IssueBook f today \<and>
              dict_get (book_map (ipage s)) (book_cb (ipage s)) = Some k \<longrightarrow>
              (\<exists>b \<in> set (books (store s)). book_id b = k \<and> status b = Available))"
proof -
  from app_inv_init assms(1,2) have inv: "app_inv s" by (rule fault_free_run)
  then have "one_open_issue (store s)" by (simp add: app_inv_def workflow_inv_soft)
  moreover from inv assms(3) have "one_open_issue (store (step e s))" by (rule soft_step)
  moreover have "\<forall>f today k. e = IssueBook f today \<and>
              dict_get (book_map (ipage s)) (book_cb (ipage s)) = Some k \<longrightarrow>
              (\<exists>b \<in> set (books (store s)). book_id b = k \<and> status b = Available)"
  proof (intro allI impI)
    fix f today k
    assume a: "e = IssueBook f today \<and>
      dict_get (book_map (ipage s)) (book_cb (ipage s)) = Some k"
    with assms(3) have "current s = IssuePage" by simp
    with inv have "page_synced (store s) (ipage s)"
      by (simp add: app_inv_def)
    with a show "\<exists>b \<in> set (books (store s)). book_id b = k \<and> status b = Available"
      by (blast intro: picked_book_available)
  qed
  ultimately show ?thesis by (intro conjI)
qed

theorem soft_invariant_preserved_witness:
  "run_events demo_events init_app = Some demo_app \<and> list_all no_fault demo_events \<and>
   enabled (IssueBook NoFault demo_today) demo_app \<and>
   store (step (IssueBook NoFault demo_today) demo_app) = demo_db_issued \<and>
   one_open_issue (store demo_app) \<and>
   one_open_issue (store (step (IssueBook NoFault demo_today) demo_app)) \<and>
   one_open_issue demo_db_issued"
proof -
  have h3: "enabled (IssueBook NoFault demo_today) demo_app"
    by (simp add: demo_app_def)
  have st: "store (step (IssueBook NoFault demo_today) demo_app) = demo_db_issued"
    by (simp add: demo_app_def issue_book_run_NoFault demo_issue)
  from soft_invariant_preserved [OF demo_app_run demo_events_no_fault h3]
  have a: "one_open_issue (store demo_app)"
    and c: "one_open_issue (store (step (IssueBook NoFault demo_today) demo_app))"
    by blast+
  from c have "one_open_issue demo_db_issued" by (simp only: st)
  with demo_app_run demo_events_no_fault h3 st a c show ?thesis by (intro conjI)
qed

text \<open>
  Claim C3, as the specification words it, fails in a state the application reaches.
  The update of \<open>issue_book\<close> fails after its insert was committed: the book Compilers
  has one open issue record and status \<open>Available\<close>, so the invariant holds and the
  picker offers the book, which is \<open>Available\<close>. The issue button, pressed again with
  no failure, writes a second open record for it.
\<close>

theorem interrupted_issue_breaks_invariant:
  "reachable demo_app_half \<and>
   run_events (demo_events @ [IssueBook AtSecondWrite demo_today]) init_app = Some demo_app_half \<and>
   one_open_issue (store demo_app_half) \<and>
   enabled (IssueBook NoFault demo_today) demo_app_half \<and>
   book_cb (ipage demo_app_half) = ''1 - Compilers'' \<and>
   dict_get (book_map (ipage demo_app_half)) (book_cb (ipage demo_app_half)) = Some 1 \<and>
   map (\<lambda>b. (book_id b, status b)) (books (store demo_app_half)) = [(1, Available)] \<and>
   map (\<lambda>b. (book_id b, status b)) (available_books (store demo_app_half)) = [(1, Available)] \<and>
   length (open_issues (store (step (IssueBook NoFault demo_today) demo_app_half)) 1) = 2 \<and>
   \<not> one_open_issue (store (step (IssueBook NoFault demo_today) demo_app_half))"
proof -
  have r: "reachable demo_app_half"
    using reachable.start demo_app_half_run by (rule reachable_run_events)
  have o: "one_open_issue (store demo_app_half)"
    by (simp add: demo_app_half_value demo_db_value one_open_issue_def open_issues_def)
  have e: "enabled (IssueBook NoFault demo_today) demo_app_half"
    by (simp add: demo_app_half_value)
  have p: "book_cb (ipage demo_app_half) = ''1 - Compilers''"
    "dict_get (book_map (ipage demo_app_half)) (book_cb (ipage demo_app_half)) = Some 1"
    by (simp_all add: demo_app_half_value demo_page_value dict_get_def)
  have b: "map (\<lambda>b. (book_id b, status b)) (books (store demo_app_half)) = [(1, Available)]"
    "map (\<lambda>b. (book_id b, status b)) (available_books (store demo_app_half)) = [(1, Available)]"
    by (simp_all add: demo_app_half_value demo_db_value available_books_def)
  have st: "issued_books (store (step (IssueBook NoFault demo_today) demo_app_half)) =
      [\<lparr>issue_id = 1, ib_student_id = Some 1, ib_book_id = Some 1,
        issue_date = Some demo_today, return_date = None\<rparr>,
       \<lparr>issue_id = 2, ib_student_id = Some 1, ib_book_id = Some 1,
        issue_date = Some demo_today, return_date = None\<rparr>]"
    and bk: "map book_id (books (store (step (IssueBook NoFault demo_today) demo_app_half))) = [1]"
    by (simp_all add: demo_app_half_value issue_book_run_def refresh_all_run_def
        demo_page_value demo_db_value dict_get_def insert_issued_def fk_ok_def int_fits_def
        update_book_status_def Let_def)
  have two: "length (open_issues (store (step (IssueBook NoFault demo_today) demo_app_half)) 1) = 2"
    unfolding open_issues_def st by simp
  have "\<not> list_all (\<lambda>k. length (open_issues
      (store (step (IssueBook NoFault demo_today) demo_app_half)) k) \<le> 1)
      (map book_id (books (store (step (IssueBook NoFault demo_today) demo_app_half))))"
    unfolding bk using two by simp
  then have n: "\<not> one_open_issue (store (step (IssueBook NoFault demo_today) demo_app_half))"
    by (simp add: one_open_issue_def list_all_iff)
  from r demo_app_half_run o e p b two n show ?thesis by (intro conjI)
qed

end
